theory Spec2Isabelle
  imports Main "HOL-Library.Word"
begin

section \<open>Messages.sol: parsing and verifying guardian-signed messages\<close>

text \<open>
  A shallow embedding of the contract \<open>Messages\<close> (\<open>contracts/Messages.sol\<close>).
  A call that reverts is a value \<open>Inl e\<close>; a call that returns is \<open>Inr x\<close>.
  Byte arrays are lists of 8-bit words, a \<open>bytes32\<close> is the list of its 32 bytes,
  array lengths and the \<open>uint256\<close> cursor are natural numbers (a byte array in
  memory is far shorter than \<open>2 ^ 256\<close>, so the cursor arithmetic cannot wrap);
  the two \<open>uint8\<close> computations that can overflow have their checks written out.
\<close>

type_synonym byte = "8 word"
type_synonym bytes = "byte list"
type_synonym bytes32 = "byte list"
type_synonym address = "160 word"

datatype error =
    Revert string   \<comment> \<open>\<open>require(cond, msg)\<close> failed\<close>
  | Panic nat       \<comment> \<open>checked arithmetic failed (code \<open>0x11 = 17\<close>)\<close>
  | Truncated       \<comment> \<open>a read of the byte library past the end of the buffer\<close>

definition andThen :: "error + 'a \<Rightarrow> ('a \<Rightarrow> error + 'b) \<Rightarrow> error + 'b" where
  "andThen m f = (case m of Inl e \<Rightarrow> Inl e | Inr x \<Rightarrow> f x)"

definition require :: "bool \<Rightarrow> string \<Rightarrow> error + unit" where
  "require cond msg = (if cond then Inr () else Inl (Revert msg))"

definition checked_sub :: "nat \<Rightarrow> nat \<Rightarrow> error + nat" where
  "checked_sub a b = (if b \<le> a then Inr (a - b) else Inl (Panic 17))"

subsection \<open>Structs\<close>

text \<open>
  Modelled from the spec: \<open>Structs.sol\<close> is not among the sources. The records have
  the fields that \<open>Messages.sol\<close> reads and writes, with the widths the spec's data
  model and the parsers' reads give them. Field names carry the struct's name as a
  prefix, since several structs share \<open>hash\<close>, \<open>version\<close>, \<open>signatures\<close> and
  \<open>guardianSetIndex\<close>.
\<close>

record Signature =
  sig_r :: bytes32
  sig_s :: bytes32
  sig_v :: "8 word"
  sig_guardianIndex :: "8 word"

record GuardianSet =
  gs_keys :: "address list"
  gs_expirationTime :: "64 word"

record Observation =
  obs_timestamp :: "32 word"
  obs_nonce :: "32 word"
  obs_emitterChainId :: "16 word"
  obs_emitterAddress :: bytes32
  obs_sequence :: "64 word"
  obs_consistencyLevel :: "8 word"
  obs_payload :: bytes

record Header =
  hdr_guardianSetIndex :: "32 word"
  hdr_signatures :: "Signature list"
  hdr_hash :: bytes32

record VM =
  vm_version :: "8 word"
  vm_timestamp :: "32 word"
  vm_nonce :: "32 word"
  vm_emitterChainId :: "16 word"
  vm_emitterAddress :: bytes32
  vm_sequence :: "64 word"
  vm_consistencyLevel :: "8 word"
  vm_payload :: bytes
  vm_guardianSetIndex :: "32 word"
  vm_signatures :: "Signature list"
  vm_hash :: bytes32

record BatchHeader =
  bh_version :: "8 word"
  bh_guardianSetIndex :: "32 word"
  bh_signatures :: "Signature list"
  bh_hashes :: "bytes32 list"
  bh_hash :: bytes32

record VM2 =
  vm2_header :: BatchHeader
  vm2_observations :: "bytes list"

record VM3 =
  vm3_version :: "8 word"
  vm3_observation :: Observation
  vm3_hash :: bytes32

text \<open>The value of a freshly declared \<open>Structs.Observation memory observation\<close>.\<close>

definition zero_Observation :: Observation where
  "zero_Observation =
     \<lparr>obs_timestamp = 0, obs_nonce = 0, obs_emitterChainId = 0,
      obs_emitterAddress = replicate 32 0, obs_sequence = 0,
      obs_consistencyLevel = 0, obs_payload = []\<rparr>"

subsection \<open>Storage, getters and setters\<close>

text \<open>
  Modelled from the spec: \<open>Getters.sol\<close>, \<open>Setters.sol\<close> and the storage layout they
  read are not among the sources. The spec gives a read-only registry
  \<open>getGuardianSet(index)\<close>, \<open>getCurrentGuardianSetIndex()\<close> and a keyed store from
  hash to boolean with \<open>cached(hash)\<close> and \<open>markVerified(hash, verified)\<close>; an index
  or a hash that was never written reads as the zero value, as a Solidity mapping does.
\<close>

record State =
  guardianSets :: "32 word \<Rightarrow> GuardianSet"
  guardianSetIndex :: "32 word"
  verifiedHashes :: "bytes32 \<Rightarrow> bool"
  block_timestamp :: "256 word"

definition getGuardianSet :: "State \<Rightarrow> 32 word \<Rightarrow> GuardianSet" where
  "getGuardianSet st i = guardianSets st i"

definition getCurrentGuardianSetIndex :: "State \<Rightarrow> 32 word" where
  "getCurrentGuardianSetIndex st = guardianSetIndex st"

definition verifiedHashCached :: "State \<Rightarrow> bytes32 \<Rightarrow> bool" where
  "verifiedHashCached st h = verifiedHashes st h"

definition updateVerifiedCacheStatus :: "bytes32 \<Rightarrow> bool \<Rightarrow> State \<Rightarrow> State" where
  "updateVerifiedCacheStatus h status st =
     st\<lparr>verifiedHashes := (verifiedHashes st)(h := status)\<rparr>"

subsection \<open>Cryptographic primitives\<close>

text \<open>
  \<open>keccak256\<close> and \<open>ecrecover\<close> are built into the platform; every function below
  takes them as a parameter, so each theorem holds for any hash function and any
  signature recovery.
\<close>

record crypto =
  keccak256 :: "bytes \<Rightarrow> bytes32"
  ecrecover :: "bytes32 \<Rightarrow> 8 word \<Rightarrow> bytes32 \<Rightarrow> bytes32 \<Rightarrow> address"

subsection \<open>The byte library\<close>

text \<open>
  Modelled from the spec: \<open>libraries/external/BytesLib.sol\<close> is not among the
  sources. The spec asks for big-endian reads at a given offset that must not read past
  the end of the buffer; a short read fails.
\<close>

definition be_nat :: "bytes \<Rightarrow> nat" where
  "be_nat bs = foldl (\<lambda>a b. a * 256 + unat b) 0 bs"

definition slice_bytes :: "bytes \<Rightarrow> nat \<Rightarrow> nat \<Rightarrow> error + bytes" where
  "slice_bytes bs start len =
     (if start + len \<le> length bs then Inr (take len (drop start bs)) else Inl Truncated)"

definition toUint8 :: "bytes \<Rightarrow> nat \<Rightarrow> error + 8 word" where
  "toUint8 bs start = (if start + 1 \<le> length bs then Inr (bs ! start) else Inl Truncated)"

definition toUint16 :: "bytes \<Rightarrow> nat \<Rightarrow> error + 16 word" where
  "toUint16 bs start =
     (if start + 2 \<le> length bs then Inr (word_of_nat (be_nat (take 2 (drop start bs))))
      else Inl Truncated)"

definition toUint32 :: "bytes \<Rightarrow> nat \<Rightarrow> error + 32 word" where
  "toUint32 bs start =
     (if start + 4 \<le> length bs then Inr (word_of_nat (be_nat (take 4 (drop start bs))))
      else Inl Truncated)"

definition toUint64 :: "bytes \<Rightarrow> nat \<Rightarrow> error + 64 word" where
  "toUint64 bs start =
     (if start + 8 \<le> length bs then Inr (word_of_nat (be_nat (take 8 (drop start bs))))
      else Inl Truncated)"

definition toBytes32 :: "bytes \<Rightarrow> nat \<Rightarrow> error + bytes32" where
  "toBytes32 bs start =
     (if start + 32 \<le> length bs then Inr (take 32 (drop start bs)) else Inl Truncated)"

subsection \<open>quorum\<close>

definition quorum :: "nat \<Rightarrow> error + nat" where
  "quorum numGuardians =
     andThen (require (numGuardians < 256) ''too many guardians'')
       (\<lambda>_. Inr (((numGuardians * 2) div 3) + 1))"

subsection \<open>verifySignatures\<close>

text \<open>
  The loop of \<open>verifySignatures\<close>: \<open>i\<close> is the loop counter, \<open>lastIndex\<close> the
  \<open>uint8\<close> variable of that name, the list holds \<open>signatures[i..]\<close>.
\<close>

fun verifySignatures_loop ::
  "crypto \<Rightarrow> bytes32 \<Rightarrow> GuardianSet \<Rightarrow> nat \<Rightarrow> 8 word \<Rightarrow> Signature list \<Rightarrow> error + (bool \<times> string)"
where
  "verifySignatures_loop c hash guardianSet i lastIndex [] = Inr (True, [])"
| "verifySignatures_loop c hash guardianSet i lastIndex (sig # rest) =
     andThen (require (i = 0 \<or> sig_guardianIndex sig > lastIndex)
                ''signature indices must be ascending'') (\<lambda>_.
     andThen (require (unat (sig_guardianIndex sig) < length (gs_keys guardianSet))
                ''guardian index out of bounds'') (\<lambda>_.
     if ecrecover c hash (sig_v sig) (sig_r sig) (sig_s sig)
          \<noteq> gs_keys guardianSet ! unat (sig_guardianIndex sig)
     then Inr (False, ''VM signature invalid'')
     else verifySignatures_loop c hash guardianSet (i + 1) (sig_guardianIndex sig) rest))"

definition verifySignatures ::
  "crypto \<Rightarrow> bytes32 \<Rightarrow> Signature list \<Rightarrow> GuardianSet \<Rightarrow> error + (bool \<times> string)"
where
  "verifySignatures c hash signatures guardianSet =
     verifySignatures_loop c hash guardianSet 0 0 signatures"

subsection \<open>verifyHeader and its callers\<close>

definition verifyHeader :: "crypto \<Rightarrow> State \<Rightarrow> Header \<Rightarrow> error + (bool \<times> string)" where
  "verifyHeader c st vm =
     (if verifiedHashCached st (hdr_hash vm) then Inr (True, [])
      else
        let guardianSet = getGuardianSet st (hdr_guardianSetIndex vm) in
        if length (gs_keys guardianSet) = 0 then Inr (False, ''invalid guardian set'')
        else if hdr_guardianSetIndex vm \<noteq> getCurrentGuardianSetIndex st
                \<and> unat (gs_expirationTime guardianSet) < unat (block_timestamp st)
        then Inr (False, ''guardian set has expired'')
        else
          andThen (quorum (length (gs_keys guardianSet))) (\<lambda>q.
          if length (hdr_signatures vm) < q then Inr (False, ''no quorum'')
          else
            andThen (verifySignatures c (hdr_hash vm) (hdr_signatures vm) guardianSet)
              (\<lambda>(signaturesValid, invalidReason).
                 if \<not> signaturesValid then Inr (False, invalidReason)
                 else Inr (True, []))))"

definition verifyVM :: "crypto \<Rightarrow> State \<Rightarrow> VM \<Rightarrow> error + (bool \<times> string)" where
  "verifyVM c st vm =
     verifyHeader c st
       \<lparr>hdr_guardianSetIndex = vm_guardianSetIndex vm,
        hdr_signatures = vm_signatures vm,
        hdr_hash = vm_hash vm\<rparr>"

definition verifyVM3 :: "State \<Rightarrow> VM3 \<Rightarrow> error + (bool \<times> string)" where
  "verifyVM3 st vm =
     (if verifiedHashCached st (vm3_hash vm) then Inr (True, [])
      else Inr (False, ''Could not find hash in cache''))"

definition verifyBatchHeader :: "crypto \<Rightarrow> State \<Rightarrow> BatchHeader \<Rightarrow> error + (bool \<times> string)" where
  "verifyBatchHeader c st vm =
     verifyHeader c st
       \<lparr>hdr_guardianSetIndex = bh_guardianSetIndex vm,
        hdr_signatures = bh_signatures vm,
        hdr_hash = bh_hash vm\<rparr>"

subsection \<open>Parsers\<close>

definition parseObservation :: "nat \<Rightarrow> nat \<Rightarrow> bytes \<Rightarrow> error + Observation" where
  "parseObservation start len encodedObservation =
     (let index = start in
      andThen (toUint32 encodedObservation index) (\<lambda>timestamp. let index = index + 4 in
      andThen (toUint32 encodedObservation index) (\<lambda>nonce. let index = index + 4 in
      andThen (toUint16 encodedObservation index) (\<lambda>emitterChainId. let index = index + 2 in
      andThen (toBytes32 encodedObservation index) (\<lambda>emitterAddress. let index = index + 32 in
      andThen (toUint64 encodedObservation index) (\<lambda>sequence. let index = index + 8 in
      andThen (toUint8 encodedObservation index) (\<lambda>consistencyLevel. let index = index + 1 in
      andThen (checked_sub index start) (\<lambda>consumed.
      andThen (require (len \<ge> consumed) ''Insufficient observation length'') (\<lambda>_.
      andThen (slice_bytes encodedObservation index (len - consumed)) (\<lambda>payload.
      Inr \<lparr>obs_timestamp = timestamp, obs_nonce = nonce,
           obs_emitterChainId = emitterChainId, obs_emitterAddress = emitterAddress,
           obs_sequence = sequence, obs_consistencyLevel = consistencyLevel,
           obs_payload = payload\<rparr>))))))))))"

text \<open>
  The loop of \<open>parseSignatures\<close>, with the number of signatures still to read.
  \<open>data.toUint8(index) + 27\<close> is a checked \<open>uint8\<close> addition.
\<close>

fun parseSignatures :: "nat \<Rightarrow> nat \<Rightarrow> bytes \<Rightarrow> error + Signature list" where
  "parseSignatures index 0 data = Inr []"
| "parseSignatures index (Suc signersLen) data =
     andThen (toUint8 data index) (\<lambda>guardianIndex.
     andThen (toBytes32 data (index + 1)) (\<lambda>r.
     andThen (toBytes32 data (index + 1 + 32)) (\<lambda>s.
     andThen (toUint8 data (index + 1 + 32 + 32)) (\<lambda>v0.
     if unat v0 + 27 > 255 then Inl (Panic 17)
     else
       andThen (parseSignatures (index + 1 + 32 + 32 + 1) signersLen data) (\<lambda>rest.
       Inr (\<lparr>sig_r = r, sig_s = s, sig_v = v0 + 27, sig_guardianIndex = guardianIndex\<rparr>
            # rest))))))"

definition parseVM :: "crypto \<Rightarrow> bytes \<Rightarrow> error + VM" where
  "parseVM c encodedVM =
     (let index = 0 in
      andThen (toUint8 encodedVM index) (\<lambda>version. let index = index + 1 in
      andThen (require (version = 1) ''VM version incompatible'') (\<lambda>_.
      andThen (toUint32 encodedVM index) (\<lambda>guardianSetIndex. let index = index + 4 in
      andThen (toUint8 encodedVM index) (\<lambda>signersLen8.
        let signersLen = unat signersLen8; index = index + 1 in
      andThen (parseSignatures index signersLen encodedVM) (\<lambda>signatures.
        let index = index + 66 * signersLen in
      andThen (checked_sub (length encodedVM) index) (\<lambda>bodyLen.
      andThen (slice_bytes encodedVM index bodyLen) (\<lambda>body.
        let hash = keccak256 c (keccak256 c body) in
      andThen (checked_sub (length encodedVM) index) (\<lambda>obsLen.
      andThen (parseObservation index obsLen encodedVM) (\<lambda>observation.
      Inr \<lparr>vm_version = version,
           vm_timestamp = obs_timestamp observation,
           vm_nonce = obs_nonce observation,
           vm_emitterChainId = obs_emitterChainId observation,
           vm_emitterAddress = obs_emitterAddress observation,
           vm_sequence = obs_sequence observation,
           vm_consistencyLevel = obs_consistencyLevel observation,
           vm_payload = obs_payload observation,
           vm_guardianSetIndex = guardianSetIndex,
           vm_signatures = signatures,
           vm_hash = hash\<rparr>))))))))))"

text \<open>
  The loop \<open>for (uint8 i = 0; i < hashesLen; i++)\<close> of \<open>parseVM2\<close>, with the number
  of hashes still to read; it returns the hashes and the cursor after them.
\<close>

fun parseHashes :: "nat \<Rightarrow> nat \<Rightarrow> bytes \<Rightarrow> error + (bytes32 list \<times> nat)" where
  "parseHashes index 0 encodedVM = Inr ([], index)"
| "parseHashes index (Suc n) encodedVM =
     andThen (toBytes32 encodedVM index) (\<lambda>h.
     andThen (parseHashes (index + 32) n encodedVM) (\<lambda>(hs, index').
     Inr (h # hs, index')))"

text \<open>
  The loop \<open>for (uint8 i = 0; i < observationsLen; i++)\<close> of \<open>parseVM2\<close>: the length
  is read as a \<open>uint32\<close>, the cursor moves by one, and the slice is tagged with a
  leading byte \<open>3\<close>.
\<close>

fun parseObservations :: "nat \<Rightarrow> nat \<Rightarrow> bytes \<Rightarrow> error + bytes list" where
  "parseObservations index 0 encodedVM = Inr []"
| "parseObservations index (Suc n) encodedVM =
     andThen (toUint32 encodedVM index) (\<lambda>observationLen. let index = index + 1 in
     andThen (slice_bytes encodedVM index (unat observationLen)) (\<lambda>ob.
       let index = index + unat observationLen in
     andThen (parseObservations index n encodedVM) (\<lambda>obs.
     Inr ((3 # ob) # obs))))"

text \<open>
  In \<open>encodedVM.slice(index, hashesLen * 32)\<close> the product is a checked \<open>uint8\<close>
  multiplication (\<open>hashesLen\<close> is a \<open>uint8\<close> and the literal takes its type).
\<close>

definition parseVM2 :: "crypto \<Rightarrow> bytes \<Rightarrow> error + VM2" where
  "parseVM2 c encodedVM =
     (let index = 0 in
      andThen (toUint8 encodedVM index) (\<lambda>version. let index = index + 1 in
      andThen (require (version = 2) ''VM version incompatible'') (\<lambda>_.
      andThen (toUint32 encodedVM index) (\<lambda>guardianSetIndex. let index = index + 4 in
      andThen (toUint8 encodedVM index) (\<lambda>signersLen8.
        let signersLen = unat signersLen8; index = index + 1 in
      andThen (parseSignatures index signersLen encodedVM) (\<lambda>signatures.
        let index = index + 66 * signersLen in
      andThen (toUint8 encodedVM index) (\<lambda>hashesLen.
      andThen (if unat hashesLen * 32 > 255 then Inl (Panic 17)
               else Inr (unat hashesLen * 32)) (\<lambda>bodyLen.
      andThen (slice_bytes encodedVM index bodyLen) (\<lambda>body.
        let hash = keccak256 c (keccak256 c body) in
      andThen (parseHashes index (unat hashesLen) encodedVM) (\<lambda>(hashes, index).
      andThen (toUint8 encodedVM index) (\<lambda>observationsLen.
      andThen (parseObservations index (unat observationsLen) encodedVM) (\<lambda>observations.
      Inr \<lparr>vm2_header =
             \<lparr>bh_version = version, bh_guardianSetIndex = guardianSetIndex,
              bh_signatures = signatures, bh_hashes = hashes, bh_hash = hash\<rparr>,
           vm2_observations = observations\<rparr>))))))))))))"

definition parseVM3 :: "crypto \<Rightarrow> bytes \<Rightarrow> error + VM3" where
  "parseVM3 c encodedVM =
     (let index = 3 in
      andThen (toUint8 encodedVM index) (\<lambda>version. let index = index + 1 in
      andThen (require (version = 3) ''VM version incompatible'') (\<lambda>_.
      andThen (parseObservation index (length encodedVM) encodedVM) (\<lambda>observation.
      andThen (checked_sub (length encodedVM) index) (\<lambda>bodyLen.
      andThen (slice_bytes encodedVM index bodyLen) (\<lambda>body.
      Inr \<lparr>vm3_version = version, vm3_observation = observation,
           vm3_hash = keccak256 c (keccak256 c body)\<rparr>))))))"

subsection \<open>Entry points\<close>

text \<open>
  The functions declared \<open>view\<close> read the state and return a result. The two that
  write the cache return the new state as well; a revert returns no state, the
  transaction's writes being undone.
\<close>

definition parseAndVerifyVM :: "crypto \<Rightarrow> State \<Rightarrow> bytes \<Rightarrow> error + (VM \<times> bool \<times> string)" where
  "parseAndVerifyVM c st encodedVM =
     andThen (parseVM c encodedVM) (\<lambda>vm.
     andThen (verifyVM c st vm) (\<lambda>(valid, reason).
     Inr (vm, valid, reason)))"

fun markAll :: "bytes32 list \<Rightarrow> bool \<Rightarrow> State \<Rightarrow> State" where
  "markAll [] status st = st"
| "markAll (h # hs) status st = markAll hs status (updateVerifiedCacheStatus h status st)"

definition parseAndVerifyVM2 ::
  "crypto \<Rightarrow> State \<Rightarrow> bytes \<Rightarrow> error + ((VM2 \<times> bool \<times> string) \<times> State)"
where
  "parseAndVerifyVM2 c st encodedVM =
     andThen (parseVM2 c encodedVM) (\<lambda>vm.
     andThen (verifyBatchHeader c st (vm2_header vm)) (\<lambda>(valid, reason).
       let st' = markAll (bh_hashes (vm2_header vm)) True st in
     Inr ((vm, valid, reason), st')))"

definition wipeBatchCache :: "BatchHeader \<Rightarrow> State \<Rightarrow> State" where
  "wipeBatchCache header st = markAll (bh_hashes header) False st"

definition parseAndVerifyVM3 :: "crypto \<Rightarrow> State \<Rightarrow> bytes \<Rightarrow> error + (VM3 \<times> bool \<times> string)" where
  "parseAndVerifyVM3 c st encodedVM =
     andThen (parseVM3 c encodedVM) (\<lambda>vm.
     andThen (verifyVM3 st vm) (\<lambda>(valid, reason).
     Inr (vm, valid, reason)))"

text \<open>The seven field assignments of the version-1 branch of \<open>parseAndVerifyVAA\<close>.\<close>

definition observationOfVM :: "VM \<Rightarrow> Observation" where
  "observationOfVM vm =
     \<lparr>obs_timestamp = vm_timestamp vm, obs_nonce = vm_nonce vm,
      obs_emitterChainId = vm_emitterChainId vm,
      obs_emitterAddress = vm_emitterAddress vm,
      obs_sequence = vm_sequence vm,
      obs_consistencyLevel = vm_consistencyLevel vm,
      obs_payload = vm_payload vm\<rparr>"

definition parseAndVerifyVAA ::
  "crypto \<Rightarrow> State \<Rightarrow> bytes \<Rightarrow> error + (Observation \<times> bool \<times> string)"
where
  "parseAndVerifyVAA c st encodedVM =
     andThen (toUint8 encodedVM 0) (\<lambda>version.
     if version = 1 then
       andThen (parseAndVerifyVM c st encodedVM) (\<lambda>(vm, valid, reason).
       Inr (observationOfVM vm, valid, reason))
     else if version = 3 then
       andThen (parseAndVerifyVM3 c st encodedVM) (\<lambda>(vm, valid, reason).
       Inr (vm3_observation vm, valid, reason))
     else Inr (zero_Observation, False, ''Invalid version''))"

text \<open>
  \<open>parseAndVerifyVAA\<close> is declared \<open>view\<close>: a call cannot write storage, so the
  state after the call is the state before it.
\<close>

definition call_parseAndVerifyVAA ::
  "crypto \<Rightarrow> State \<Rightarrow> bytes \<Rightarrow> (error + (Observation \<times> bool \<times> string)) \<times> State"
where
  "call_parseAndVerifyVAA c st encodedVM = (parseAndVerifyVAA c st encodedVM, st)"

subsection \<open>The per-signature condition of the walk\<close>

text \<open>
  What the body of the loop in \<open>verifySignatures\<close> asks of one signature besides the
  order of the indices: the index is within the guardian set, and the recovered signer
  is the key at that index.
\<close>

definition sig_ok :: "crypto \<Rightarrow> bytes32 \<Rightarrow> GuardianSet \<Rightarrow> Signature \<Rightarrow> bool" where
  "sig_ok c hash guardianSet sg \<longleftrightarrow>
     unat (sig_guardianIndex sg) < length (gs_keys guardianSet) \<and>
     ecrecover c hash (sig_v sg) (sig_r sg) (sig_s sg)
       = gs_keys guardianSet ! unat (sig_guardianIndex sg)"

subsection \<open>The checks between the cache and the walk\<close>

text \<open>
  The conditions under which \<open>verifyHeader\<close>, for a hash that is not cached, gets as
  far as \<open>verifySignatures\<close>: the guardian set has a key, it is current or not expired,
  it has fewer than 256 keys, and the number of signatures is not below the quorum.
\<close>

definition checks_pass :: "State \<Rightarrow> Header \<Rightarrow> bool" where
  "checks_pass st vm \<longleftrightarrow>
     gs_keys (getGuardianSet st (hdr_guardianSetIndex vm)) \<noteq> [] \<and>
     \<not> (hdr_guardianSetIndex vm \<noteq> getCurrentGuardianSetIndex st \<and>
        unat (gs_expirationTime (getGuardianSet st (hdr_guardianSetIndex vm)))
          < unat (block_timestamp st)) \<and>
     length (gs_keys (getGuardianSet st (hdr_guardianSetIndex vm))) < 256 \<and>
     \<not> length (hdr_signatures vm)
         < length (gs_keys (getGuardianSet st (hdr_guardianSetIndex vm))) * 2 div 3 + 1"

text \<open>The header that \<open>verifyVM\<close> builds from a parsed message.\<close>

definition headerOfVM :: "VM \<Rightarrow> Header" where
  "headerOfVM vm =
     \<lparr>hdr_guardianSetIndex = vm_guardianSetIndex vm,
      hdr_signatures = vm_signatures vm,
      hdr_hash = vm_hash vm\<rparr>"

subsection \<open>Concrete inputs\<close>

text \<open>
  Inputs on which the theorems below are evaluated. The hash function of
  \<open>demo_crypto\<close> is the identity, so that a hash shows the very bytes that were
  hashed; its recovery function reads the signer from \<open>r\<close>. The registry of
  \<open>demo_state\<close> holds the current set 0 (one key, expiration in the past), set 1 (one
  key, not current, expired), set 2 (256 keys, not current, not expired) and no keys
  anywhere else; one hash, \<open>[202, 254]\<close>, is in the cache.
\<close>

definition demo_crypto :: crypto where
  "demo_crypto =
     \<lparr>keccak256 = (\<lambda>bs. bs), ecrecover = (\<lambda>hash v r s. word_of_nat (be_nat r))\<rparr>"

definition demo_state :: State where
  "demo_state =
     \<lparr>guardianSets = (\<lambda>i.
         if i = 0 then \<lparr>gs_keys = [1], gs_expirationTime = 50\<rparr>
         else if i = 1 then \<lparr>gs_keys = [1], gs_expirationTime = 100\<rparr>
         else if i = 2 then \<lparr>gs_keys = replicate 256 1, gs_expirationTime = 2000\<rparr>
         else \<lparr>gs_keys = [], gs_expirationTime = 0\<rparr>),
      guardianSetIndex = 0,
      verifiedHashes = (\<lambda>h. h = [202, 254]),
      block_timestamp = 1000\<rparr>"

text \<open>A signature for guardian \<open>idx\<close> that recovers to the address \<open>signer\<close>.\<close>

definition demo_sig :: "8 word \<Rightarrow> 8 word \<Rightarrow> Signature" where
  "demo_sig idx signer =
     \<lparr>sig_r = replicate 31 0 @ [signer], sig_s = replicate 32 0, sig_v = 27,
      sig_guardianIndex = idx\<rparr>"

definition demo_header :: "32 word \<Rightarrow> Signature list \<Rightarrow> bytes32 \<Rightarrow> Header" where
  "demo_header i sigs h = \<lparr>hdr_guardianSetIndex = i, hdr_signatures = sigs, hdr_hash = h\<rparr>"

text \<open>
  A version-1 message for guardian set 0 with one signature, by guardian 0, that
  recovers to the key of that guardian.
\<close>

definition demo_body :: bytes where
  "demo_body =
     [0, 0, 0, 5, 0, 0, 0, 6, 0, 2] @ replicate 32 9 @ [0, 0, 0, 0, 0, 0, 0, 7, 1] @ [170, 187]"

definition demo_vaa :: bytes where
  "demo_vaa =
     [1, 0, 0, 0, 0, 1, 0] @ replicate 31 0 @ [1] @ replicate 32 0 @ [0] @ demo_body"

definition demo_observation :: Observation where
  "demo_observation =
     \<lparr>obs_timestamp = 5, obs_nonce = 6, obs_emitterChainId = 2,
      obs_emitterAddress = replicate 32 9, obs_sequence = 7,
      obs_consistencyLevel = 1, obs_payload = [170, 187]\<rparr>"

definition demo_vm :: VM where
  "demo_vm =
     \<lparr>vm_version = 1, vm_timestamp = 5, vm_nonce = 6, vm_emitterChainId = 2,
      vm_emitterAddress = replicate 32 9, vm_sequence = 7, vm_consistencyLevel = 1,
      vm_payload = [170, 187], vm_guardianSetIndex = 0,
      vm_signatures = [demo_sig 0 1], vm_hash = demo_body\<rparr>"

text \<open>The same registry and clock with the hash of \<open>demo_vaa\<close> in the cache.\<close>

definition demo_state_cached :: State where
  "demo_state_cached = updateVerifiedCacheStatus demo_body True demo_state"

text \<open>A recovery function that never finds a guardian: it returns the zero address.\<close>

definition failing_crypto :: crypto where
  "failing_crypto = \<lparr>keccak256 = (\<lambda>bs. bs), ecrecover = (\<lambda>hash v r s. 0)\<rparr>"

text \<open>A guardian set of three keys, for the signature walk alone.\<close>

definition demo_guardians :: GuardianSet where
  "demo_guardians = \<lparr>gs_keys = [1, 2, 3], gs_expirationTime = 0\<rparr>"

text \<open>
  A version-2 message for guardian set 9 (which has no keys) with no signatures: the
  byte at offset 6 is \<open>hashesLen = 1\<close>, followed by 31 bytes \<open>171\<close> and a byte \<open>0\<close>.
\<close>

definition demo_batch :: bytes where
  "demo_batch = [2, 0, 0, 0, 9, 0, 1] @ replicate 31 171 @ [0]"

definition demo_batch_vm :: VM2 where
  "demo_batch_vm =
     \<lparr>vm2_header =
        \<lparr>bh_version = 2, bh_guardianSetIndex = 9, bh_signatures = [],
         bh_hashes = [1 # replicate 31 171], bh_hash = 1 # replicate 31 171\<rparr>,
      vm2_observations = []\<rparr>"

section \<open>Properties\<close>

subsection \<open>The signature walk\<close>

lemma loop_results:
  "verifySignatures_loop c h gs i li sigs \<in>
     {Inr (True, []), Inr (False, ''VM signature invalid''),
      Inl (Revert ''signature indices must be ascending''),
      Inl (Revert ''guardian index out of bounds'')}"
  by (induction sigs arbitrary: i li) (auto simp: andThen_def require_def)

lemma loop_True_sorted:
  "verifySignatures_loop c h gs i li sigs = Inr (True, r) \<Longrightarrow>
     sorted_wrt (<) (map sig_guardianIndex sigs) \<and>
     (\<forall>s \<in> set sigs. unat (sig_guardianIndex s) < length (gs_keys gs)) \<and>
     (i \<noteq> 0 \<longrightarrow> (\<forall>s \<in> set sigs. li < sig_guardianIndex s))"
proof (induction sigs arbitrary: i li)
  case Nil
  then show ?case by simp
next
  case (Cons x xs)
  from Cons.prems have ord: "i = 0 \<or> li < sig_guardianIndex x"
    and rng: "unat (sig_guardianIndex x) < length (gs_keys gs)"
    and rest: "verifySignatures_loop c h gs (i + 1) (sig_guardianIndex x) xs = Inr (True, r)"
    by (auto simp: andThen_def require_def split: if_splits)
  from Cons.IH[OF rest] have ih: "sorted_wrt (<) (map sig_guardianIndex xs)"
    "\<forall>s \<in> set xs. unat (sig_guardianIndex s) < length (gs_keys gs)"
    "\<forall>s \<in> set xs. sig_guardianIndex x < sig_guardianIndex s"
    by simp_all
  show ?case using ord rng ih by auto
qed

lemma verifySignatures_True_ascending:
  assumes "verifySignatures c h sigs gs = Inr (True, r)"
  shows "sorted_wrt (<) (map sig_guardianIndex sigs) \<and>
         (\<forall>s \<in> set sigs. unat (sig_guardianIndex s) < length (gs_keys gs))"
  using loop_True_sorted[of c h gs 0 0 sigs r] assms
  by (simp add: verifySignatures_def)

lemma loop_all_ok:
  "\<forall>s \<in> set sigs. sig_ok c h gs s \<Longrightarrow>
   verifySignatures_loop c h gs i li sigs =
     (if sorted_wrt (<) (map sig_guardianIndex sigs)
         \<and> (i \<noteq> 0 \<longrightarrow> (\<forall>s \<in> set sigs. li < sig_guardianIndex s))
      then Inr (True, []) else Inl (Revert ''signature indices must be ascending''))"
proof (induction sigs arbitrary: i li)
  case Nil
  then show ?case by simp
next
  case (Cons x xs)
  then have okx: "sig_ok c h gs x" and okxs: "\<forall>s \<in> set xs. sig_ok c h gs s" by simp_all
  note ih = Cons.IH[OF okxs, of "i + 1" "sig_guardianIndex x"]
  show ?case
  proof (cases "i = 0 \<or> li < sig_guardianIndex x")
    case True
    then have "verifySignatures_loop c h gs i li (x # xs) =
        verifySignatures_loop c h gs (i + 1) (sig_guardianIndex x) xs"
      using okx by (auto simp: andThen_def require_def sig_ok_def)
    then show ?thesis using ih True by (auto simp: )
  next
    case False
    then show ?thesis by (auto simp: andThen_def require_def)
  qed
qed

lemma loop_append:
  "verifySignatures_loop c h gs i li (pre @ xs) =
     (if verifySignatures_loop c h gs i li pre = Inr (True, [])
      then verifySignatures_loop c h gs (i + length pre)
             (if pre = [] then li else sig_guardianIndex (last pre)) xs
      else verifySignatures_loop c h gs i li pre)"
proof (induction pre arbitrary: i li)
  case Nil
  then show ?case by simp
next
  case (Cons x pre)
  show ?case
    by (simp add: andThen_def require_def Cons.IH)
qed

lemma descent_reverts:
  assumes i: "Suc i < length sigs"
    and le: "sig_guardianIndex (sigs ! Suc i) \<le> sig_guardianIndex (sigs ! i)"
    and ok: "\<forall>j \<le> i. sig_ok c hash guardianSet (sigs ! j)"
  shows "verifySignatures c hash sigs guardianSet
           = Inl (Revert ''signature indices must be ascending'')"
proof -
  define pre where "pre = take (Suc i) sigs"
  define rest where "rest = drop (Suc (Suc i)) sigs"
  have split: "sigs = pre @ (sigs ! Suc i) # rest"
    using i by (simp add: pre_def rest_def Cons_nth_drop_Suc)
  have lenpre: "length pre = Suc i" using i by (simp add: pre_def)
  have prene: "pre \<noteq> []" using lenpre by auto
  have lastpre: "last pre = sigs ! i"
    using i by (simp add: pre_def take_Suc_conv_app_nth)
  have okpre: "\<forall>s \<in> set pre. sig_ok c hash guardianSet s"
  proof
    fix s assume "s \<in> set pre"
    then obtain j where "j < length pre" "pre ! j = s" by (auto simp: in_set_conv_nth)
    then show "sig_ok c hash guardianSet s" using ok lenpre by (auto simp: pre_def)
  qed
  let ?asc = "Inl (Revert ''signature indices must be ascending'') :: error + (bool \<times> string)"
  have next_fails: "verifySignatures_loop c hash guardianSet (0 + length pre)
      (sig_guardianIndex (last pre)) ((sigs ! Suc i) # rest) = ?asc"
  proof -
    have nlt: "\<not> sig_guardianIndex (last pre) < sig_guardianIndex (sigs ! Suc i)"
      using le lastpre by (simp add: not_less)
    show ?thesis using nlt lenpre by (simp add: andThen_def require_def)
  qed
  have "verifySignatures_loop c hash guardianSet 0 0 (pre @ (sigs ! Suc i) # rest) = ?asc"
    using loop_all_ok[OF okpre, of 0 0] next_fails prene
    by (simp add: loop_append split: if_splits)
  then show ?thesis using split by (simp add: verifySignatures_def)
qed

lemma verifySignatures_results:
  "verifySignatures c h sigs gs \<in>
     {Inr (True, []), Inr (False, ''VM signature invalid''),
      Inl (Revert ''signature indices must be ascending''),
      Inl (Revert ''guardian index out of bounds'')}"
  unfolding verifySignatures_def by (rule loop_results)

lemma loop_True_ok:
  "verifySignatures_loop c h gs i li sigs = Inr (True, r) \<Longrightarrow> \<forall>s \<in> set sigs. sig_ok c h gs s"
proof (induction sigs arbitrary: i li)
  case Nil
  then show ?case by simp
next
  case (Cons x xs)
  from Cons.prems have okx: "sig_ok c h gs x"
    and rest: "verifySignatures_loop c h gs (i + 1) (sig_guardianIndex x) xs = Inr (True, r)"
    by (auto simp: andThen_def require_def sig_ok_def split: if_splits)
  from Cons.IH[OF rest] okx show ?case by simp
qed

lemma verifySignatures_True_iff:
  "verifySignatures c h sigs gs = Inr (True, []) \<longleftrightarrow>
     sorted_wrt (<) (map sig_guardianIndex sigs) \<and> (\<forall>s \<in> set sigs. sig_ok c h gs s)"
proof
  assume t: "verifySignatures c h sigs gs = Inr (True, [])"
  then have "\<forall>s \<in> set sigs. sig_ok c h gs s"
    using loop_True_ok[of c h gs 0 0 sigs "[]"] by (simp add: verifySignatures_def)
  moreover have "sorted_wrt (<) (map sig_guardianIndex sigs)"
    using verifySignatures_True_ascending[OF t] by simp
  ultimately show "sorted_wrt (<) (map sig_guardianIndex sigs) \<and> (\<forall>s \<in> set sigs. sig_ok c h gs s)"
    by simp
next
  assume a: "sorted_wrt (<) (map sig_guardianIndex sigs) \<and> (\<forall>s \<in> set sigs. sig_ok c h gs s)"
  then have ok: "\<forall>s \<in> set sigs. sig_ok c h gs s" by simp
  show "verifySignatures c h sigs gs = Inr (True, [])"
    using loop_all_ok[OF ok, of 0 0] a by (simp add: verifySignatures_def)
qed

lemma walk_first_failure:
  assumes srt: "sorted_wrt (<) (map sig_guardianIndex pre)"
    and ok: "\<forall>s \<in> set pre. sig_ok c h gs s"
  shows "verifySignatures c h (pre @ sg # rest) gs =
     (if pre \<noteq> [] \<and> sig_guardianIndex sg \<le> sig_guardianIndex (last pre)
      then Inl (Revert ''signature indices must be ascending'')
      else if \<not> unat (sig_guardianIndex sg) < length (gs_keys gs)
      then Inl (Revert ''guardian index out of bounds'')
      else if ecrecover c h (sig_v sg) (sig_r sg) (sig_s sg)
                \<noteq> gs_keys gs ! unat (sig_guardianIndex sg)
      then Inr (False, ''VM signature invalid'')
      else verifySignatures_loop c h gs (Suc (length pre)) (sig_guardianIndex sg) rest)"
proof -
  have pre_ok: "verifySignatures_loop c h gs 0 0 pre = Inr (True, [])"
    using loop_all_ok[OF ok, of 0 0] srt by simp
  have step: "verifySignatures_loop c h gs 0 0 (pre @ sg # rest) =
      verifySignatures_loop c h gs (length pre)
        (if pre = [] then 0 else sig_guardianIndex (last pre)) (sg # rest)"
    using pre_ok by (simp add: loop_append)
  show ?thesis
  proof (cases "pre = []")
    case True
    then show ?thesis
      unfolding verifySignatures_def step
      by (simp add: andThen_def require_def)
  next
    case False
    then have len: "length pre \<noteq> 0" by simp
    show ?thesis
    proof (cases "sig_guardianIndex (last pre) < sig_guardianIndex sg")
      case True
      then have nle: "\<not> sig_guardianIndex sg \<le> sig_guardianIndex (last pre)"
        by (simp add: not_le)
      show ?thesis
        unfolding verifySignatures_def step
        using False len True nle by (simp add: andThen_def require_def)
    next
      case nlt: False
      then have le: "sig_guardianIndex sg \<le> sig_guardianIndex (last pre)"
        by (simp add: not_less)
      show ?thesis
        unfolding verifySignatures_def step
        using False len nlt le by (simp add: andThen_def require_def)
    qed
  qed
qed

lemma walk_failures:
  assumes srt: "sorted_wrt (<) (map sig_guardianIndex pre)"
    and ok: "\<forall>s \<in> set pre. sig_ok c h gs s"
  shows
    "(pre \<noteq> [] \<and> sig_guardianIndex e \<le> sig_guardianIndex (last pre)
        \<longrightarrow> verifySignatures c h (pre @ e # post) gs
              = Inl (Revert ''signature indices must be ascending'')) \<and>
     ((pre = [] \<or> sig_guardianIndex (last pre) < sig_guardianIndex e) \<and>
      \<not> unat (sig_guardianIndex e) < length (gs_keys gs)
        \<longrightarrow> verifySignatures c h (pre @ e # post) gs
              = Inl (Revert ''guardian index out of bounds'')) \<and>
     ((pre = [] \<or> sig_guardianIndex (last pre) < sig_guardianIndex e) \<and>
      unat (sig_guardianIndex e) < length (gs_keys gs) \<and>
      ecrecover c h (sig_v e) (sig_r e) (sig_s e) \<noteq> gs_keys gs ! unat (sig_guardianIndex e)
        \<longrightarrow> verifySignatures c h (pre @ e # post) gs = Inr (False, ''VM signature invalid''))"
proof -
  have ord: "(pre = [] \<or> sig_guardianIndex (last pre) < sig_guardianIndex e)
      \<longleftrightarrow> \<not> (pre \<noteq> [] \<and> sig_guardianIndex e \<le> sig_guardianIndex (last pre))"
    by (auto simp: not_le)
  show ?thesis
    unfolding ord walk_first_failure[OF srt ok, of e post] by simp
qed

lemma verifyHeader_results:
  "verifyHeader c st vm \<in>
     {Inr (True, []),
      Inr (False, ''invalid guardian set''),
      Inr (False, ''guardian set has expired''),
      Inr (False, ''no quorum''),
      Inr (False, ''VM signature invalid''),
      Inl (Revert ''too many guardians''),
      Inl (Revert ''signature indices must be ascending''),
      Inl (Revert ''guardian index out of bounds'')}"
proof -
  define r where
    "r = verifySignatures c (hdr_hash vm) (hdr_signatures vm)
           (getGuardianSet st (hdr_guardianSetIndex vm))"
  have rs: "r \<in> {Inr (True, []), Inr (False, ''VM signature invalid''),
      Inl (Revert ''signature indices must be ascending''),
      Inl (Revert ''guardian index out of bounds'')}"
    unfolding r_def by (rule verifySignatures_results)
  have "verifyHeader c st vm =
     (if verifiedHashCached st (hdr_hash vm) then Inr (True, [])
      else if length (gs_keys (getGuardianSet st (hdr_guardianSetIndex vm))) = 0
      then Inr (False, ''invalid guardian set'')
      else if hdr_guardianSetIndex vm \<noteq> getCurrentGuardianSetIndex st
              \<and> unat (gs_expirationTime (getGuardianSet st (hdr_guardianSetIndex vm)))
                  < unat (block_timestamp st)
      then Inr (False, ''guardian set has expired'')
      else andThen (quorum (length (gs_keys (getGuardianSet st (hdr_guardianSetIndex vm)))))
        (\<lambda>q. if length (hdr_signatures vm) < q then Inr (False, ''no quorum'')
              else andThen r (\<lambda>(signaturesValid, invalidReason).
                     if \<not> signaturesValid then Inr (False, invalidReason)
                     else Inr (True, []))))"
    unfolding r_def verifyHeader_def Let_def by (rule refl)
  then show ?thesis
    using rs by (auto simp: andThen_def quorum_def require_def)
qed

lemma quorum_andThen:
  "andThen (quorum n) f
     = (if 256 \<le> n then Inl (Revert ''too many guardians'') else f (n * 2 div 3 + 1))"
  by (simp add: quorum_def require_def andThen_def)

lemma verifyHeader_normal_form:
  "verifyHeader c st vm =
     (if verifiedHashCached st (hdr_hash vm) then Inr (True, [])
      else if gs_keys (getGuardianSet st (hdr_guardianSetIndex vm)) = []
      then Inr (False, ''invalid guardian set'')
      else if hdr_guardianSetIndex vm \<noteq> getCurrentGuardianSetIndex st
              \<and> unat (gs_expirationTime (getGuardianSet st (hdr_guardianSetIndex vm)))
                  < unat (block_timestamp st)
      then Inr (False, ''guardian set has expired'')
      else if 256 \<le> length (gs_keys (getGuardianSet st (hdr_guardianSetIndex vm)))
      then Inl (Revert ''too many guardians'')
      else if length (hdr_signatures vm)
                < length (gs_keys (getGuardianSet st (hdr_guardianSetIndex vm))) * 2 div 3 + 1
      then Inr (False, ''no quorum'')
      else verifySignatures c (hdr_hash vm) (hdr_signatures vm)
             (getGuardianSet st (hdr_guardianSetIndex vm)))"
proof -
  define gs where "gs = getGuardianSet st (hdr_guardianSetIndex vm)"
  define r where "r = verifySignatures c (hdr_hash vm) (hdr_signatures vm) gs"
  define expired where
    "expired \<longleftrightarrow> hdr_guardianSetIndex vm \<noteq> getCurrentGuardianSetIndex st
        \<and> unat (gs_expirationTime gs) < unat (block_timestamp st)"
  have rs: "r \<in> {Inr (True, []), Inr (False, ''VM signature invalid''),
      Inl (Revert ''signature indices must be ascending''),
      Inl (Revert ''guardian index out of bounds'')}"
    unfolding r_def by (rule verifySignatures_results)
  have post: "andThen r (\<lambda>(signaturesValid, invalidReason).
                     if \<not> signaturesValid then Inr (False, invalidReason)
                     else Inr (True, [])) = r"
    using rs by (auto simp: andThen_def)
  have "verifyHeader c st vm =
     (if verifiedHashCached st (hdr_hash vm) then Inr (True, [])
      else if length (gs_keys gs) = 0 then Inr (False, ''invalid guardian set'')
      else if expired then Inr (False, ''guardian set has expired'')
      else andThen (quorum (length (gs_keys gs)))
        (\<lambda>q. if length (hdr_signatures vm) < q then Inr (False, ''no quorum'')
              else andThen r (\<lambda>(signaturesValid, invalidReason).
                     if \<not> signaturesValid then Inr (False, invalidReason)
                     else Inr (True, []))))"
    unfolding gs_def r_def expired_def verifyHeader_def Let_def by (rule refl)
  also have "\<dots> =
     (if verifiedHashCached st (hdr_hash vm) then Inr (True, [])
      else if gs_keys gs = [] then Inr (False, ''invalid guardian set'')
      else if expired then Inr (False, ''guardian set has expired'')
      else if 256 \<le> length (gs_keys gs) then Inl (Revert ''too many guardians'')
      else if length (hdr_signatures vm) < length (gs_keys gs) * 2 div 3 + 1
      then Inr (False, ''no quorum'')
      else r)"
    by (simp add: quorum_andThen post)
  finally show ?thesis unfolding gs_def r_def expired_def .
qed

lemma verifyHeader_walk:
  assumes "\<not> verifiedHashCached st (hdr_hash vm)" and "checks_pass st vm"
  shows "verifyHeader c st vm =
           verifySignatures c (hdr_hash vm) (hdr_signatures vm)
             (getGuardianSet st (hdr_guardianSetIndex vm))"
proof -
  from assms(2) have k: "gs_keys (getGuardianSet st (hdr_guardianSetIndex vm)) \<noteq> []"
    and e: "\<not> (hdr_guardianSetIndex vm \<noteq> getCurrentGuardianSetIndex st \<and>
        unat (gs_expirationTime (getGuardianSet st (hdr_guardianSetIndex vm)))
          < unat (block_timestamp st))"
    and n: "\<not> 256 \<le> length (gs_keys (getGuardianSet st (hdr_guardianSetIndex vm)))"
    and q: "\<not> length (hdr_signatures vm)
         < length (gs_keys (getGuardianSet st (hdr_guardianSetIndex vm))) * 2 div 3 + 1"
    unfolding checks_pass_def by (simp_all add: not_le)
  show ?thesis
    unfolding verifyHeader_normal_form by (simp only: assms(1) k e n q if_False)
qed

lemma verifyHeader_True_iff:
  "verifyHeader c st vm = Inr (True, []) \<longleftrightarrow>
     verifiedHashCached st (hdr_hash vm) \<or>
     (checks_pass st vm \<and>
      sorted_wrt (<) (map sig_guardianIndex (hdr_signatures vm)) \<and>
      (\<forall>s \<in> set (hdr_signatures vm).
         sig_ok c (hdr_hash vm) (getGuardianSet st (hdr_guardianSetIndex vm)) s))"
proof (cases "verifiedHashCached st (hdr_hash vm)")
  case True
  then show ?thesis by (simp add: verifyHeader_normal_form)
next
  case nc: False
  show ?thesis
  proof (cases "checks_pass st vm")
    case True
    then show ?thesis
      using nc verifyHeader_walk[OF nc True, of c] by (simp add: verifySignatures_True_iff)
  next
    case False
    then have "verifyHeader c st vm \<noteq> Inr (True, [])"
      using nc unfolding verifyHeader_normal_form checks_pass_def
      by (auto simp: not_le split: if_splits)
    then show ?thesis using nc False by simp
  qed
qed

subsection \<open>Parsers and the cache\<close>

lemma parseObservation_whole_length:
  "isl (parseObservation 4 (length buf) buf)"
  by (auto simp add: parseObservation_def Let_def andThen_def checked_sub_def require_def
        slice_bytes_def toUint8_def split: sum.splits if_splits)

lemma parseVM_version: "parseVM c b = Inr vm \<Longrightarrow> toUint8 b 0 = Inr 1"
proof (cases "toUint8 b 0")
  case (Inl e)
  assume "parseVM c b = Inr vm"
  with Inl show ?thesis by (simp add: parseVM_def andThen_def)
next
  case (Inr v)
  assume p: "parseVM c b = Inr vm"
  show ?thesis
  proof (cases "v = 1")
    case True
    with Inr show ?thesis by simp
  next
    case False
    with Inr p show ?thesis by (simp add: parseVM_def andThen_def require_def)
  qed
qed

lemma andThen_if:
  "andThen (if b then x else y) f = (if b then andThen x f else andThen y f)"
  by simp

lemma andThen_Inl: "andThen (Inl e) f = Inl e"
  by (simp add: andThen_def)

lemma andThen_Inr: "andThen (Inr x) f = f x"
  by (simp add: andThen_def)

lemma parseAndVerifyVAA_version1:
  assumes p: "parseVM c b = Inr vm"
  shows "parseAndVerifyVAA c st b =
           andThen (verifyHeader c st (headerOfVM vm))
             (\<lambda>(valid, reason). Inr (observationOfVM vm, valid, reason))"
proof -
  have v: "toUint8 b 0 = Inr 1" using p by (rule parseVM_version)
  have "parseAndVerifyVM c st b =
          andThen (verifyHeader c st (headerOfVM vm)) (\<lambda>(valid, reason). Inr (vm, valid, reason))"
    by (simp add: parseAndVerifyVM_def p andThen_Inr verifyVM_def headerOfVM_def)
  then show ?thesis
    by (simp add: parseAndVerifyVAA_def v andThen_def split: sum.splits)
qed

lemma markAll_cached:
  "verifiedHashCached (markAll hs status st) h
     = (if h \<in> set hs then status else verifiedHashCached st h)"
  by (induction hs arbitrary: st)
     (auto simp: verifiedHashCached_def updateVerifiedCacheStatus_def)

lemma parseAndVerifyVM2_marks_all:
  assumes "parseAndVerifyVM2 c st encodedVM = Inr ((vm, valid, reason), st')"
    and "h \<in> set (bh_hashes (vm2_header vm))"
  shows "verifiedHashCached st' h"
  using assms
  by (auto simp: parseAndVerifyVM2_def andThen_def Let_def markAll_cached split: sum.splits)

text \<open>
  The bytes that \<open>parseVM2\<close> hashes and the bytes it parses the hashes from, for
  every buffer it accepts: both start at the offset of the \<open>hashesLen\<close> byte.
\<close>

lemma parseHashes_result:
  "parseHashes index n buf = Inr (hs, index') \<Longrightarrow>
     index' = index + 32 * n \<and>
     hs = map (\<lambda>k. take 32 (drop (index + 32 * k) buf)) [0..<n]"
proof (induction n arbitrary: index hs index')
  case 0
  then show ?case by simp
next
  case (Suc n)
  from Suc.prems obtain h hs' where
    h: "toBytes32 buf index = Inr h" and
    r: "parseHashes (index + 32) n buf = Inr (hs', index')" and
    hs: "hs = h # hs'"
    by (auto simp: andThen_def split: sum.splits)
  from h have h': "h = take 32 (drop index buf)"
    by (auto simp: toBytes32_def split: if_splits)
  from Suc.IH[OF r] have ih: "index' = index + 32 + 32 * n"
    "hs' = map (\<lambda>k. take 32 (drop (index + 32 + 32 * k) buf)) [0..<n]"
    by simp_all
  have "map (\<lambda>k. take 32 (drop (index + 32 * k) buf)) [0..<Suc n]
          = take 32 (drop (index + 32 * 0) buf)
            # map (\<lambda>k. take 32 (drop (index + 32 * Suc k) buf)) [0..<n]"
    by (rule map_upt_Suc)
  then show ?case using hs h' ih by (simp del: upt_Suc add: add.assoc)
qed

lemma parseVM2_hash_bytes:
  assumes "parseVM2 c buf = Inr vm"
  shows "bh_hash (vm2_header vm)
           = keccak256 c (keccak256 c
               (take (unat (buf ! (6 + 66 * unat (buf ! 5))) * 32)
                  (drop (6 + 66 * unat (buf ! 5)) buf))) \<and>
         bh_hashes (vm2_header vm)
           = map (\<lambda>k. take 32 (drop (6 + 66 * unat (buf ! 5) + 32 * k) buf))
               [0..<unat (buf ! (6 + 66 * unat (buf ! 5)))]"
proof -
  define index where "index = 6 + 66 * unat (buf ! 5)"
  from assms obtain hashesLen body hashes index' where
    hl: "toUint8 buf index = Inr hashesLen" and
    bd: "slice_bytes buf index (unat hashesLen * 32) = Inr body" and
    ph: "parseHashes index (unat hashesLen) buf = Inr (hashes, index')" and
    hh: "bh_hash (vm2_header vm) = keccak256 c (keccak256 c body)" and
    hs: "bh_hashes (vm2_header vm) = hashes"
    unfolding index_def
    by (auto simp: parseVM2_def andThen_def Let_def toUint8_def
          split: sum.splits if_splits prod.splits)
  from hl have a: "hashesLen = buf ! index" by (auto simp: toUint8_def split: if_splits)
  from bd have b: "body = take (unat hashesLen * 32) (drop index buf)"
    by (auto simp: slice_bytes_def split: if_splits)
  from parseHashes_result[OF ph] hs hh a b show ?thesis
    unfolding index_def by simp
qed

subsection \<open>The cache holds unverified hashes after parseAndVerifyVM2\<close>

text \<open>
  Claim C1 asks that a hash be marked verified only after a successful verification, so
  that after \<open>parseAndVerifyVM2\<close> returns \<open>valid = false\<close> no hash of the batch is
  marked. The loop over \<open>vm.header.hashes\<close> runs whatever \<open>valid\<close> is
  (\<open>parseAndVerifyVM2_marks_all\<close>). On \<open>demo_batch\<close>, whose guardian set has no keys,
  the call returns \<open>(false, "invalid guardian set")\<close> and the hash of the batch, which
  was not in the cache before, is marked verified after.
\<close>

theorem parseAndVerifyVM2_marks_unverified:
  "parseAndVerifyVM2 demo_crypto demo_state demo_batch
     = Inr ((demo_batch_vm, False, ''invalid guardian set''),
            updateVerifiedCacheStatus (1 # replicate 31 171) True demo_state) \<and>
   bh_hashes (vm2_header demo_batch_vm) = [1 # replicate 31 171] \<and>
   \<not> verifiedHashCached demo_state (1 # replicate 31 171) \<and>
   verifiedHashCached (updateVerifiedCacheStatus (1 # replicate 31 171) True demo_state)
     (1 # replicate 31 171)"
proof -
  have p: "parseVM2 demo_crypto demo_batch = Inr demo_batch_vm" by code_simp
  have v: "verifyBatchHeader demo_crypto demo_state (vm2_header demo_batch_vm)
            = Inr (False, ''invalid guardian set'')" by code_simp
  have hs: "bh_hashes (vm2_header demo_batch_vm) = [1 # replicate 31 171]"
    by (simp add: demo_batch_vm_def)
  have n: "\<not> verifiedHashCached demo_state (1 # replicate 31 171)" by code_simp
  have y: "verifiedHashCached (updateVerifiedCacheStatus (1 # replicate 31 171) True demo_state)
     (1 # replicate 31 171)"
    by (simp add: verifiedHashCached_def updateVerifiedCacheStatus_def)
  have r: "parseAndVerifyVM2 demo_crypto demo_state demo_batch
     = Inr ((demo_batch_vm, False, ''invalid guardian set''),
            updateVerifiedCacheStatus (1 # replicate 31 171) True demo_state)"
    by (simp add: parseAndVerifyVM2_def p v hs andThen_def)
  show ?thesis using r hs n y by blast
qed

subsection \<open>The bytes hashed by parseVM2\<close>

text \<open>
  Claim C2 asks that the header hash cover the \<open>hashesLen * 32\<close> bytes after the
  \<open>hashesLen\<close> byte. \<open>parseVM2\<close> reads \<open>hashesLen\<close> without moving the cursor, so
  the bytes hashed, and the bytes of the first hash, begin with the \<open>hashesLen\<close> byte
  itself, for every buffer the parser accepts (\<open>parseVM2_hash_bytes\<close>). On
  \<open>demo_batch\<close>, accepted by the parser, with the identity as hash function:
  the byte at offset 6 is \<open>hashesLen = 1\<close>, the header hash is the 32 bytes from offset 6
  and differs from the 32 bytes from offset 7.
\<close>

theorem parseVM2_hashes_length_byte:
  "parseVM2 demo_crypto demo_batch = Inr demo_batch_vm \<and>
   demo_batch ! 6 = 1 \<and>
   bh_hash (vm2_header demo_batch_vm) = take 32 (drop 6 demo_batch) \<and>
   bh_hash (vm2_header demo_batch_vm) \<noteq> take 32 (drop 7 demo_batch) \<and>
   bh_hashes (vm2_header demo_batch_vm) = [take 32 (drop 6 demo_batch)]"
  by code_simp

subsection \<open>parseVM3\<close>

text \<open>
  Claim C3. \<open>parseVM3\<close> reverts on every buffer. It hands the whole buffer length to
  \<open>parseObservation\<close> together with the start offset 4, so that the payload slice asks
  for \<open>length - 51\<close> bytes from offset 55, four more than the buffer holds: that slice
  fails on every buffer, and a buffer too short for the fixed fields fails before it. Hence
  \<open>parseAndVerifyVM3\<close> reverts on every buffer, and \<open>parseAndVerifyVAA\<close> on every
  buffer whose first byte is 3.
\<close>

theorem parseVM3_never_returns:
  "slice_bytes buf (4 + 51) (length buf - 51) = Inl Truncated \<and>
   isl (parseObservation 4 (length buf) buf) \<and>
   isl (parseVM3 c buf) \<and>
   isl (parseAndVerifyVM3 c st buf) \<and>
   isl (parseAndVerifyVAA c st (3 # rest))"
proof -
  have a: "slice_bytes buf (4 + 51) (length buf - 51) = Inl Truncated"
    by (simp add: slice_bytes_def)
  have p3: "isl (parseVM3 c b)" for b
    using parseObservation_whole_length[of b]
    by (auto simp add: parseVM3_def Let_def andThen_def isl_def split: sum.splits)
  have pv3: "isl (parseAndVerifyVM3 c st b)" for b
    using p3[of b] by (auto simp add: parseAndVerifyVM3_def andThen_def isl_def split: sum.splits)
  have vaa: "isl (parseAndVerifyVAA c st (3 # rest))"
    using pv3[of "3 # rest"]
    by (auto simp add: parseAndVerifyVAA_def toUint8_def andThen_def isl_def split: sum.splits)
  show ?thesis using a parseObservation_whole_length p3 pv3 vaa by blast
qed

subsection \<open>Which failures are returned and which revert\<close>

text \<open>
  Claim C4, amended. For a hash that is not cached, \<open>verifyHeader\<close> returns
  \<open>(false, "invalid guardian set")\<close> if the set has no keys, else
  \<open>(false, "guardian set has expired")\<close> if the set is not current and its
  expiration time is below the block timestamp, else it reverts with
  "too many guardians" if the set has 256 keys or more, else it returns
  \<open>(false, "no quorum")\<close> if there are fewer signatures than the quorum, else it
  gives the outcome of the signature walk. In the walk the first failing check decides:
  after entries that are strictly ascending, in range and valid, an entry whose index is
  not above that of the entry before it reverts with
  "signature indices must be ascending", otherwise an entry whose index is outside the
  guardian set reverts with "guardian index out of bounds", otherwise an entry whose
  signature does not recover to the guardian's key returns
  \<open>(false, "VM signature invalid")\<close>. So the four failures invalid guardian set,
  expired, no quorum and invalid signature are returned as a pair, and bad signature
  order and index out of range are reverts. \<open>verifyHeader\<close> returns \<open>(true, "")\<close>
  exactly when the hash is cached or every one of these checks passes, and it has no
  outcome beyond these eight.
\<close>

theorem verification_outcomes:
  "verifyHeader c st vm =
     (if verifiedHashCached st (hdr_hash vm) then Inr (True, [])
      else if gs_keys (getGuardianSet st (hdr_guardianSetIndex vm)) = []
      then Inr (False, ''invalid guardian set'')
      else if hdr_guardianSetIndex vm \<noteq> getCurrentGuardianSetIndex st
              \<and> unat (gs_expirationTime (getGuardianSet st (hdr_guardianSetIndex vm)))
                  < unat (block_timestamp st)
      then Inr (False, ''guardian set has expired'')
      else if 256 \<le> length (gs_keys (getGuardianSet st (hdr_guardianSetIndex vm)))
      then Inl (Revert ''too many guardians'')
      else if length (hdr_signatures vm)
                < length (gs_keys (getGuardianSet st (hdr_guardianSetIndex vm))) * 2 div 3 + 1
      then Inr (False, ''no quorum'')
      else verifySignatures c (hdr_hash vm) (hdr_signatures vm)
             (getGuardianSet st (hdr_guardianSetIndex vm))) \<and>
   verifyHeader c st vm \<in>
     {Inr (True, []),
      Inr (False, ''invalid guardian set''),
      Inr (False, ''guardian set has expired''),
      Inr (False, ''no quorum''),
      Inr (False, ''VM signature invalid''),
      Inl (Revert ''too many guardians''),
      Inl (Revert ''signature indices must be ascending''),
      Inl (Revert ''guardian index out of bounds'')} \<and>
   verifySignatures c hash sigs guardianSet \<in>
     {Inr (True, []), Inr (False, ''VM signature invalid''),
      Inl (Revert ''signature indices must be ascending''),
      Inl (Revert ''guardian index out of bounds'')} \<and>
   (\<not> unat (sig_guardianIndex sg) < length (gs_keys guardianSet)
    \<longrightarrow> verifySignatures c hash (sg # rest) guardianSet
          = Inl (Revert ''guardian index out of bounds'')) \<and>
   (sig_ok c hash guardianSet sg \<and> sig_guardianIndex sg' \<le> sig_guardianIndex sg
    \<longrightarrow> verifySignatures c hash (sg # sg' # rest) guardianSet
          = Inl (Revert ''signature indices must be ascending'')) \<and>
   (\<not> verifiedHashCached st (hdr_hash vm) \<and> checks_pass st vm \<and>
    hdr_signatures vm = pre @ e # post \<and>
    sorted_wrt (<) (map sig_guardianIndex pre) \<and>
    (\<forall>s \<in> set pre. sig_ok c (hdr_hash vm) (getGuardianSet st (hdr_guardianSetIndex vm)) s)
    \<longrightarrow>
      (pre \<noteq> [] \<and> sig_guardianIndex e \<le> sig_guardianIndex (last pre)
         \<longrightarrow> verifyHeader c st vm = Inl (Revert ''signature indices must be ascending'')) \<and>
      ((pre = [] \<or> sig_guardianIndex (last pre) < sig_guardianIndex e) \<and>
       \<not> unat (sig_guardianIndex e)
           < length (gs_keys (getGuardianSet st (hdr_guardianSetIndex vm)))
         \<longrightarrow> verifyHeader c st vm = Inl (Revert ''guardian index out of bounds'')) \<and>
      ((pre = [] \<or> sig_guardianIndex (last pre) < sig_guardianIndex e) \<and>
       unat (sig_guardianIndex e)
         < length (gs_keys (getGuardianSet st (hdr_guardianSetIndex vm))) \<and>
       ecrecover c (hdr_hash vm) (sig_v e) (sig_r e) (sig_s e)
         \<noteq> gs_keys (getGuardianSet st (hdr_guardianSetIndex vm)) ! unat (sig_guardianIndex e)
         \<longrightarrow> verifyHeader c st vm = Inr (False, ''VM signature invalid''))) \<and>
   (verifyHeader c st vm = Inr (True, []) \<longleftrightarrow>
      verifiedHashCached st (hdr_hash vm) \<or>
      (checks_pass st vm \<and>
       sorted_wrt (<) (map sig_guardianIndex (hdr_signatures vm)) \<and>
       (\<forall>s \<in> set (hdr_signatures vm).
          sig_ok c (hdr_hash vm) (getGuardianSet st (hdr_guardianSetIndex vm)) s)))"
proof -
  have oob: "\<not> unat (sig_guardianIndex sg) < length (gs_keys guardianSet)
    \<longrightarrow> verifySignatures c hash (sg # rest) guardianSet
          = Inl (Revert ''guardian index out of bounds'')"
    by (simp add: verifySignatures_def andThen_def require_def)
  have asc: "sig_ok c hash guardianSet sg \<and> sig_guardianIndex sg' \<le> sig_guardianIndex sg
    \<longrightarrow> verifySignatures c hash (sg # sg' # rest) guardianSet
          = Inl (Revert ''signature indices must be ascending'')"
    by (auto simp add: verifySignatures_def andThen_def require_def sig_ok_def)
  have walk: "\<not> verifiedHashCached st (hdr_hash vm) \<and> checks_pass st vm \<and>
    hdr_signatures vm = pre @ e # post \<and>
    sorted_wrt (<) (map sig_guardianIndex pre) \<and>
    (\<forall>s \<in> set pre. sig_ok c (hdr_hash vm) (getGuardianSet st (hdr_guardianSetIndex vm)) s)
    \<longrightarrow>
      (pre \<noteq> [] \<and> sig_guardianIndex e \<le> sig_guardianIndex (last pre)
         \<longrightarrow> verifyHeader c st vm = Inl (Revert ''signature indices must be ascending'')) \<and>
      ((pre = [] \<or> sig_guardianIndex (last pre) < sig_guardianIndex e) \<and>
       \<not> unat (sig_guardianIndex e)
           < length (gs_keys (getGuardianSet st (hdr_guardianSetIndex vm)))
         \<longrightarrow> verifyHeader c st vm = Inl (Revert ''guardian index out of bounds'')) \<and>
      ((pre = [] \<or> sig_guardianIndex (last pre) < sig_guardianIndex e) \<and>
       unat (sig_guardianIndex e)
         < length (gs_keys (getGuardianSet st (hdr_guardianSetIndex vm))) \<and>
       ecrecover c (hdr_hash vm) (sig_v e) (sig_r e) (sig_s e)
         \<noteq> gs_keys (getGuardianSet st (hdr_guardianSetIndex vm)) ! unat (sig_guardianIndex e)
         \<longrightarrow> verifyHeader c st vm = Inr (False, ''VM signature invalid''))"
  proof
    assume a: "\<not> verifiedHashCached st (hdr_hash vm) \<and> checks_pass st vm \<and>
      hdr_signatures vm = pre @ e # post \<and>
      sorted_wrt (<) (map sig_guardianIndex pre) \<and>
      (\<forall>s \<in> set pre. sig_ok c (hdr_hash vm) (getGuardianSet st (hdr_guardianSetIndex vm)) s)"
    then have nc: "\<not> verifiedHashCached st (hdr_hash vm)" and cp: "checks_pass st vm"
      and sp: "hdr_signatures vm = pre @ e # post"
      and srt: "sorted_wrt (<) (map sig_guardianIndex pre)"
      and ok: "\<forall>s \<in> set pre. sig_ok c (hdr_hash vm) (getGuardianSet st (hdr_guardianSetIndex vm)) s"
      by simp_all
    have eq: "verifyHeader c st vm =
        verifySignatures c (hdr_hash vm) (pre @ e # post)
          (getGuardianSet st (hdr_guardianSetIndex vm))"
      using verifyHeader_walk[OF nc cp, of c] sp by simp
    show "(pre \<noteq> [] \<and> sig_guardianIndex e \<le> sig_guardianIndex (last pre)
         \<longrightarrow> verifyHeader c st vm = Inl (Revert ''signature indices must be ascending'')) \<and>
      ((pre = [] \<or> sig_guardianIndex (last pre) < sig_guardianIndex e) \<and>
       \<not> unat (sig_guardianIndex e)
           < length (gs_keys (getGuardianSet st (hdr_guardianSetIndex vm)))
         \<longrightarrow> verifyHeader c st vm = Inl (Revert ''guardian index out of bounds'')) \<and>
      ((pre = [] \<or> sig_guardianIndex (last pre) < sig_guardianIndex e) \<and>
       unat (sig_guardianIndex e)
         < length (gs_keys (getGuardianSet st (hdr_guardianSetIndex vm))) \<and>
       ecrecover c (hdr_hash vm) (sig_v e) (sig_r e) (sig_s e)
         \<noteq> gs_keys (getGuardianSet st (hdr_guardianSetIndex vm)) ! unat (sig_guardianIndex e)
         \<longrightarrow> verifyHeader c st vm = Inr (False, ''VM signature invalid''))"
      unfolding eq by (rule walk_failures[OF srt ok])
  qed
  show ?thesis
    by (intro conjI)
       (rule verifyHeader_normal_form, rule verifyHeader_results, rule verifySignatures_results,
        rule oob, rule asc, rule walk, rule verifyHeader_True_iff)
qed

theorem verification_outcomes_witness:
  "verifySignatures demo_crypto [5] [demo_sig 7 1] demo_guardians
     = Inl (Revert ''guardian index out of bounds'') \<and>
   verifySignatures demo_crypto [5] [demo_sig 1 2, demo_sig 1 2] demo_guardians
     = Inl (Revert ''signature indices must be ascending'') \<and>
   \<not> verifiedHashCached demo_state [5] \<and>
   checks_pass demo_state (demo_header 0 [demo_sig 0 1, demo_sig 0 1] [5]) \<and>
   sig_ok demo_crypto [5] (getGuardianSet demo_state 0) (demo_sig 0 1) \<and>
   verifyHeader demo_crypto demo_state (demo_header 0 [demo_sig 0 1, demo_sig 0 1] [5])
     = Inl (Revert ''signature indices must be ascending'') \<and>
   checks_pass demo_state (demo_header 0 [demo_sig 4 1] [5]) \<and>
   verifyHeader demo_crypto demo_state (demo_header 0 [demo_sig 4 1] [5])
     = Inl (Revert ''guardian index out of bounds'') \<and>
   checks_pass demo_state (demo_header 0 [demo_sig 0 9] [5]) \<and>
   verifyHeader demo_crypto demo_state (demo_header 0 [demo_sig 0 9] [5])
     = Inr (False, ''VM signature invalid'') \<and>
   checks_pass demo_state (demo_header 0 [demo_sig 0 1] [5]) \<and>
   verifyHeader demo_crypto demo_state (demo_header 0 [demo_sig 0 1] [5]) = Inr (True, [])"
proof -
  have h1: "\<not> unat (sig_guardianIndex (demo_sig 7 1)) < length (gs_keys demo_guardians)"
    by code_simp
  have h2: "sig_ok demo_crypto [5] demo_guardians (demo_sig 1 2) \<and>
      sig_guardianIndex (demo_sig 1 2) \<le> sig_guardianIndex (demo_sig 1 2)"
    by code_simp
  have nc: "\<not> verifiedHashCached demo_state [5]" by code_simp
  have ok: "sig_ok demo_crypto [5] (getGuardianSet demo_state 0) (demo_sig 0 1)" by code_simp
  have hA: "\<not> verifiedHashCached demo_state (hdr_hash (demo_header 0 [demo_sig 0 1, demo_sig 0 1] [5])) \<and>
      checks_pass demo_state (demo_header 0 [demo_sig 0 1, demo_sig 0 1] [5]) \<and>
      hdr_signatures (demo_header 0 [demo_sig 0 1, demo_sig 0 1] [5])
        = [demo_sig 0 1] @ demo_sig 0 1 # [] \<and>
      sorted_wrt (<) (map sig_guardianIndex [demo_sig 0 1]) \<and>
      (\<forall>s \<in> set [demo_sig 0 1].
         sig_ok demo_crypto (hdr_hash (demo_header 0 [demo_sig 0 1, demo_sig 0 1] [5]))
           (getGuardianSet demo_state
              (hdr_guardianSetIndex (demo_header 0 [demo_sig 0 1, demo_sig 0 1] [5]))) s)"
    by code_simp
  have hA': "[demo_sig 0 1] \<noteq> [] \<and>
      sig_guardianIndex (demo_sig 0 1) \<le> sig_guardianIndex (last [demo_sig 0 1])"
    by code_simp
  have hB: "\<not> verifiedHashCached demo_state (hdr_hash (demo_header 0 [demo_sig 4 1] [5])) \<and>
      checks_pass demo_state (demo_header 0 [demo_sig 4 1] [5]) \<and>
      hdr_signatures (demo_header 0 [demo_sig 4 1] [5]) = [] @ demo_sig 4 1 # [] \<and>
      sorted_wrt (<) (map sig_guardianIndex []) \<and>
      (\<forall>s \<in> set [].
         sig_ok demo_crypto (hdr_hash (demo_header 0 [demo_sig 4 1] [5]))
           (getGuardianSet demo_state
              (hdr_guardianSetIndex (demo_header 0 [demo_sig 4 1] [5]))) s)"
    by code_simp
  have hB': "(([] :: Signature list) = [] \<or>
       sig_guardianIndex (last []) < sig_guardianIndex (demo_sig 4 1)) \<and>
      \<not> unat (sig_guardianIndex (demo_sig 4 1))
          < length (gs_keys (getGuardianSet demo_state
              (hdr_guardianSetIndex (demo_header 0 [demo_sig 4 1] [5]))))"
    by code_simp
  have hC: "\<not> verifiedHashCached demo_state (hdr_hash (demo_header 0 [demo_sig 0 9] [5])) \<and>
      checks_pass demo_state (demo_header 0 [demo_sig 0 9] [5]) \<and>
      hdr_signatures (demo_header 0 [demo_sig 0 9] [5]) = [] @ demo_sig 0 9 # [] \<and>
      sorted_wrt (<) (map sig_guardianIndex []) \<and>
      (\<forall>s \<in> set [].
         sig_ok demo_crypto (hdr_hash (demo_header 0 [demo_sig 0 9] [5]))
           (getGuardianSet demo_state
              (hdr_guardianSetIndex (demo_header 0 [demo_sig 0 9] [5]))) s)"
    by code_simp
  have hC': "(([] :: Signature list) = [] \<or>
       sig_guardianIndex (last []) < sig_guardianIndex (demo_sig 0 9)) \<and>
      unat (sig_guardianIndex (demo_sig 0 9))
        < length (gs_keys (getGuardianSet demo_state
            (hdr_guardianSetIndex (demo_header 0 [demo_sig 0 9] [5])))) \<and>
      ecrecover demo_crypto (hdr_hash (demo_header 0 [demo_sig 0 9] [5]))
          (sig_v (demo_sig 0 9)) (sig_r (demo_sig 0 9)) (sig_s (demo_sig 0 9))
        \<noteq> gs_keys (getGuardianSet demo_state
              (hdr_guardianSetIndex (demo_header 0 [demo_sig 0 9] [5])))
            ! unat (sig_guardianIndex (demo_sig 0 9))"
    by code_simp
  have hD: "checks_pass demo_state (demo_header 0 [demo_sig 0 1] [5]) \<and>
      sorted_wrt (<) (map sig_guardianIndex (hdr_signatures (demo_header 0 [demo_sig 0 1] [5]))) \<and>
      (\<forall>s \<in> set (hdr_signatures (demo_header 0 [demo_sig 0 1] [5])).
         sig_ok demo_crypto (hdr_hash (demo_header 0 [demo_sig 0 1] [5]))
           (getGuardianSet demo_state
              (hdr_guardianSetIndex (demo_header 0 [demo_sig 0 1] [5]))) s)"
    by code_simp
  from verification_outcomes[where c = demo_crypto and hash = "[5]"
      and guardianSet = demo_guardians and sg = "demo_sig 7 1" and rest = "[]"] h1
  have a: "verifySignatures demo_crypto [5] [demo_sig 7 1] demo_guardians
     = Inl (Revert ''guardian index out of bounds'')" by blast
  from verification_outcomes[where c = demo_crypto and hash = "[5]"
      and guardianSet = demo_guardians and sg = "demo_sig 1 2" and sg' = "demo_sig 1 2"
      and rest = "[]"] h2
  have b: "verifySignatures demo_crypto [5] [demo_sig 1 2, demo_sig 1 2] demo_guardians
     = Inl (Revert ''signature indices must be ascending'')" by blast
  from verification_outcomes[where c = demo_crypto and st = demo_state
      and vm = "demo_header 0 [demo_sig 0 1, demo_sig 0 1] [5]"
      and pre = "[demo_sig 0 1]" and e = "demo_sig 0 1" and post = "[]"] hA hA'
  have rA: "verifyHeader demo_crypto demo_state (demo_header 0 [demo_sig 0 1, demo_sig 0 1] [5])
     = Inl (Revert ''signature indices must be ascending'')" by blast
  from verification_outcomes[where c = demo_crypto and st = demo_state
      and vm = "demo_header 0 [demo_sig 4 1] [5]"
      and pre = "[]" and e = "demo_sig 4 1" and post = "[]"] hB hB'
  have rB: "verifyHeader demo_crypto demo_state (demo_header 0 [demo_sig 4 1] [5])
     = Inl (Revert ''guardian index out of bounds'')" by blast
  from verification_outcomes[where c = demo_crypto and st = demo_state
      and vm = "demo_header 0 [demo_sig 0 9] [5]"
      and pre = "[]" and e = "demo_sig 0 9" and post = "[]"] hC hC'
  have rC: "verifyHeader demo_crypto demo_state (demo_header 0 [demo_sig 0 9] [5])
     = Inr (False, ''VM signature invalid'')" by blast
  from verification_outcomes[where c = demo_crypto and st = demo_state
      and vm = "demo_header 0 [demo_sig 0 1] [5]"] hD
  have rD: "verifyHeader demo_crypto demo_state (demo_header 0 [demo_sig 0 1] [5])
     = Inr (True, [])" by blast
  show ?thesis
    using a b nc ok rA rB rC rD hA hB hC hD by blast
qed

text \<open>
  Claim C4 as stated fails: for the current guardian set of \<open>demo_state\<close>, a header
  with two signatures of guardian 0 and a header whose signature names guardian 4 both
  make \<open>verifyHeader\<close> revert.
\<close>

theorem verification_outcomes_counterexample:
  "verifyHeader demo_crypto demo_state (demo_header 0 [demo_sig 0 1, demo_sig 0 1] [5])
     = Inl (Revert ''signature indices must be ascending'') \<and>
   verifyHeader demo_crypto demo_state (demo_header 0 [demo_sig 4 1] [5])
     = Inl (Revert ''guardian index out of bounds'')"
  by code_simp

subsection \<open>Calling parseAndVerifyVAA twice\<close>

text \<open>
  Claim C5, amended. \<open>parseAndVerifyVAA\<close> writes nothing: a second call on the state
  the first one leaves returns what the first returned, and the state, the cache
  included, is the one before the first call. For a version-1 buffer that parses: if
  its hash was in the cache before the first call, the call returns
  \<open>(observation, true, "")\<close> from the cache. If it was not, it is not in the cache
  after the first call either, and the second call runs the checks of \<open>verifyHeader\<close>
  again on the unchanged state: no keys, expiry, too many guardians, quorum, and when
  these pass the signature walk with its signature recovery. It then returns
  \<open>(observation, true, "")\<close> exactly when the guardian set has a key and fewer than
  256, is current or not expired, the quorum is met, and the signatures are strictly
  ascending, in range and each recovers to its guardian's key.
\<close>

theorem parseAndVerifyVAA_twice:
  "call_parseAndVerifyVAA c (snd (call_parseAndVerifyVAA c st b)) b
     = call_parseAndVerifyVAA c st b \<and>
   snd (call_parseAndVerifyVAA c st b) = st \<and>
   (parseVM c b = Inr vm \<and> verifiedHashCached st (vm_hash vm)
    \<longrightarrow> fst (call_parseAndVerifyVAA c st b) = Inr (observationOfVM vm, True, [])) \<and>
   (parseVM c b = Inr vm \<and> \<not> verifiedHashCached st (vm_hash vm)
    \<longrightarrow>
      \<not> verifiedHashCached (snd (call_parseAndVerifyVAA c st b)) (vm_hash vm) \<and>
      fst (call_parseAndVerifyVAA c (snd (call_parseAndVerifyVAA c st b)) b) =
        (if gs_keys (getGuardianSet st (vm_guardianSetIndex vm)) = []
         then Inr (observationOfVM vm, False, ''invalid guardian set'')
         else if vm_guardianSetIndex vm \<noteq> getCurrentGuardianSetIndex st
                 \<and> unat (gs_expirationTime (getGuardianSet st (vm_guardianSetIndex vm)))
                     < unat (block_timestamp st)
         then Inr (observationOfVM vm, False, ''guardian set has expired'')
         else if 256 \<le> length (gs_keys (getGuardianSet st (vm_guardianSetIndex vm)))
         then Inl (Revert ''too many guardians'')
         else if length (vm_signatures vm)
                   < length (gs_keys (getGuardianSet st (vm_guardianSetIndex vm))) * 2 div 3 + 1
         then Inr (observationOfVM vm, False, ''no quorum'')
         else andThen
                (verifySignatures c (vm_hash vm) (vm_signatures vm)
                   (getGuardianSet st (vm_guardianSetIndex vm)))
                (\<lambda>(valid, reason). Inr (observationOfVM vm, valid, reason))) \<and>
      (fst (call_parseAndVerifyVAA c (snd (call_parseAndVerifyVAA c st b)) b)
         = Inr (observationOfVM vm, True, [])
       \<longleftrightarrow>
         checks_pass st (headerOfVM vm) \<and>
         sorted_wrt (<) (map sig_guardianIndex (vm_signatures vm)) \<and>
         (\<forall>s \<in> set (vm_signatures vm).
            sig_ok c (vm_hash vm) (getGuardianSet st (vm_guardianSetIndex vm)) s)))"
proof -
  have twice: "call_parseAndVerifyVAA c (snd (call_parseAndVerifyVAA c st b)) b
     = call_parseAndVerifyVAA c st b"
    and same: "snd (call_parseAndVerifyVAA c st b) = st"
    by (simp_all add: call_parseAndVerifyVAA_def)
  have hdr: "hdr_hash (headerOfVM vm) = vm_hash vm"
    "hdr_signatures (headerOfVM vm) = vm_signatures vm"
    "hdr_guardianSetIndex (headerOfVM vm) = vm_guardianSetIndex vm"
    by (simp_all add: headerOfVM_def)
  have cached: "parseVM c b = Inr vm \<and> verifiedHashCached st (vm_hash vm)
    \<longrightarrow> fst (call_parseAndVerifyVAA c st b) = Inr (observationOfVM vm, True, [])"
  proof
    assume a: "parseVM c b = Inr vm \<and> verifiedHashCached st (vm_hash vm)"
    then have p: "parseVM c b = Inr vm" and h: "verifiedHashCached st (vm_hash vm)" by simp_all
    have "verifyHeader c st (headerOfVM vm) = Inr (True, [])"
      using h by (simp add: verifyHeader_normal_form hdr)
    then show "fst (call_parseAndVerifyVAA c st b) = Inr (observationOfVM vm, True, [])"
      by (simp add: call_parseAndVerifyVAA_def parseAndVerifyVAA_version1[OF p] andThen_Inr)
  qed
  have uncached: "parseVM c b = Inr vm \<and> \<not> verifiedHashCached st (vm_hash vm)
    \<longrightarrow>
      \<not> verifiedHashCached (snd (call_parseAndVerifyVAA c st b)) (vm_hash vm) \<and>
      fst (call_parseAndVerifyVAA c (snd (call_parseAndVerifyVAA c st b)) b) =
        (if gs_keys (getGuardianSet st (vm_guardianSetIndex vm)) = []
         then Inr (observationOfVM vm, False, ''invalid guardian set'')
         else if vm_guardianSetIndex vm \<noteq> getCurrentGuardianSetIndex st
                 \<and> unat (gs_expirationTime (getGuardianSet st (vm_guardianSetIndex vm)))
                     < unat (block_timestamp st)
         then Inr (observationOfVM vm, False, ''guardian set has expired'')
         else if 256 \<le> length (gs_keys (getGuardianSet st (vm_guardianSetIndex vm)))
         then Inl (Revert ''too many guardians'')
         else if length (vm_signatures vm)
                   < length (gs_keys (getGuardianSet st (vm_guardianSetIndex vm))) * 2 div 3 + 1
         then Inr (observationOfVM vm, False, ''no quorum'')
         else andThen
                (verifySignatures c (vm_hash vm) (vm_signatures vm)
                   (getGuardianSet st (vm_guardianSetIndex vm)))
                (\<lambda>(valid, reason). Inr (observationOfVM vm, valid, reason))) \<and>
      (fst (call_parseAndVerifyVAA c (snd (call_parseAndVerifyVAA c st b)) b)
         = Inr (observationOfVM vm, True, [])
       \<longleftrightarrow>
         checks_pass st (headerOfVM vm) \<and>
         sorted_wrt (<) (map sig_guardianIndex (vm_signatures vm)) \<and>
         (\<forall>s \<in> set (vm_signatures vm).
            sig_ok c (vm_hash vm) (getGuardianSet st (vm_guardianSetIndex vm)) s))"
  proof
    assume a: "parseVM c b = Inr vm \<and> \<not> verifiedHashCached st (vm_hash vm)"
    then have p: "parseVM c b = Inr vm" and nc: "\<not> verifiedHashCached st (vm_hash vm)"
      by simp_all
    have second: "fst (call_parseAndVerifyVAA c (snd (call_parseAndVerifyVAA c st b)) b)
        = andThen (verifyHeader c st (headerOfVM vm))
            (\<lambda>(valid, reason). Inr (observationOfVM vm, valid, reason))"
      by (simp add: call_parseAndVerifyVAA_def parseAndVerifyVAA_version1[OF p])
    have still: "\<not> verifiedHashCached (snd (call_parseAndVerifyVAA c st b)) (vm_hash vm)"
      using nc by (simp add: same)
    have nf: "andThen (verifyHeader c st (headerOfVM vm))
            (\<lambda>(valid, reason). Inr (observationOfVM vm, valid, reason)) =
        (if gs_keys (getGuardianSet st (vm_guardianSetIndex vm)) = []
         then Inr (observationOfVM vm, False, ''invalid guardian set'')
         else if vm_guardianSetIndex vm \<noteq> getCurrentGuardianSetIndex st
                 \<and> unat (gs_expirationTime (getGuardianSet st (vm_guardianSetIndex vm)))
                     < unat (block_timestamp st)
         then Inr (observationOfVM vm, False, ''guardian set has expired'')
         else if 256 \<le> length (gs_keys (getGuardianSet st (vm_guardianSetIndex vm)))
         then Inl (Revert ''too many guardians'')
         else if length (vm_signatures vm)
                   < length (gs_keys (getGuardianSet st (vm_guardianSetIndex vm))) * 2 div 3 + 1
         then Inr (observationOfVM vm, False, ''no quorum'')
         else andThen
                (verifySignatures c (vm_hash vm) (vm_signatures vm)
                   (getGuardianSet st (vm_guardianSetIndex vm)))
                (\<lambda>(valid, reason). Inr (observationOfVM vm, valid, reason)))"
      by (simp only: verifyHeader_normal_form hdr nc if_False andThen_if andThen_Inl
            andThen_Inr prod.case)
    have tr: "andThen (verifyHeader c st (headerOfVM vm))
            (\<lambda>(valid, reason). Inr (observationOfVM vm, valid, reason))
          = Inr (observationOfVM vm, True, [])
        \<longleftrightarrow> verifyHeader c st (headerOfVM vm) = Inr (True, [])"
      by (auto simp: andThen_def split: sum.splits)
    have iff: "verifyHeader c st (headerOfVM vm) = Inr (True, []) \<longleftrightarrow>
         checks_pass st (headerOfVM vm) \<and>
         sorted_wrt (<) (map sig_guardianIndex (vm_signatures vm)) \<and>
         (\<forall>s \<in> set (vm_signatures vm).
            sig_ok c (vm_hash vm) (getGuardianSet st (vm_guardianSetIndex vm)) s)"
      using nc by (simp add: verifyHeader_True_iff hdr)
    show "\<not> verifiedHashCached (snd (call_parseAndVerifyVAA c st b)) (vm_hash vm) \<and>
      fst (call_parseAndVerifyVAA c (snd (call_parseAndVerifyVAA c st b)) b) =
        (if gs_keys (getGuardianSet st (vm_guardianSetIndex vm)) = []
         then Inr (observationOfVM vm, False, ''invalid guardian set'')
         else if vm_guardianSetIndex vm \<noteq> getCurrentGuardianSetIndex st
                 \<and> unat (gs_expirationTime (getGuardianSet st (vm_guardianSetIndex vm)))
                     < unat (block_timestamp st)
         then Inr (observationOfVM vm, False, ''guardian set has expired'')
         else if 256 \<le> length (gs_keys (getGuardianSet st (vm_guardianSetIndex vm)))
         then Inl (Revert ''too many guardians'')
         else if length (vm_signatures vm)
                   < length (gs_keys (getGuardianSet st (vm_guardianSetIndex vm))) * 2 div 3 + 1
         then Inr (observationOfVM vm, False, ''no quorum'')
         else andThen
                (verifySignatures c (vm_hash vm) (vm_signatures vm)
                   (getGuardianSet st (vm_guardianSetIndex vm)))
                (\<lambda>(valid, reason). Inr (observationOfVM vm, valid, reason))) \<and>
      (fst (call_parseAndVerifyVAA c (snd (call_parseAndVerifyVAA c st b)) b)
         = Inr (observationOfVM vm, True, [])
       \<longleftrightarrow>
         checks_pass st (headerOfVM vm) \<and>
         sorted_wrt (<) (map sig_guardianIndex (vm_signatures vm)) \<and>
         (\<forall>s \<in> set (vm_signatures vm).
            sig_ok c (vm_hash vm) (getGuardianSet st (vm_guardianSetIndex vm)) s))"
      unfolding second tr iff
      by (intro conjI) (rule still, rule nf, rule refl)
  qed
  show ?thesis
    by (intro conjI) (rule twice, rule same, rule cached, rule uncached)
qed

theorem parseAndVerifyVAA_twice_witness:
  "parseVM failing_crypto demo_vaa = Inr demo_vm \<and>
   verifiedHashCached demo_state_cached (vm_hash demo_vm) \<and>
   fst (call_parseAndVerifyVAA failing_crypto demo_state_cached demo_vaa)
     = Inr (demo_observation, True, []) \<and>
   snd (call_parseAndVerifyVAA failing_crypto demo_state_cached demo_vaa) = demo_state_cached \<and>
   parseVM demo_crypto demo_vaa = Inr demo_vm \<and>
   \<not> verifiedHashCached demo_state (vm_hash demo_vm) \<and>
   \<not> verifiedHashCached (snd (call_parseAndVerifyVAA demo_crypto demo_state demo_vaa))
       (vm_hash demo_vm) \<and>
   checks_pass demo_state (headerOfVM demo_vm) \<and>
   sig_ok demo_crypto (vm_hash demo_vm) (getGuardianSet demo_state 0) (demo_sig 0 1) \<and>
   fst (call_parseAndVerifyVAA demo_crypto
          (snd (call_parseAndVerifyVAA demo_crypto demo_state demo_vaa)) demo_vaa)
     = Inr (demo_observation, True, []) \<and>
   fst (call_parseAndVerifyVAA failing_crypto
          (snd (call_parseAndVerifyVAA failing_crypto demo_state demo_vaa)) demo_vaa)
     = Inr (demo_observation, False, ''VM signature invalid'')"
proof -
  have p: "parseVM failing_crypto demo_vaa = Inr demo_vm" by code_simp
  have h: "verifiedHashCached demo_state_cached (vm_hash demo_vm)" by code_simp
  have o: "observationOfVM demo_vm = demo_observation" by code_simp
  from parseAndVerifyVAA_twice[where c = failing_crypto and st = demo_state_cached
      and b = demo_vaa and vm = demo_vm] p h o
  have c1: "fst (call_parseAndVerifyVAA failing_crypto demo_state_cached demo_vaa)
     = Inr (demo_observation, True, []) \<and>
   snd (call_parseAndVerifyVAA failing_crypto demo_state_cached demo_vaa) = demo_state_cached"
    by simp
  have p2: "parseVM demo_crypto demo_vaa = Inr demo_vm" by code_simp
  have nc: "\<not> verifiedHashCached demo_state (vm_hash demo_vm)" by code_simp
  have cp: "checks_pass demo_state (headerOfVM demo_vm)" by code_simp
  have ok: "sig_ok demo_crypto (vm_hash demo_vm) (getGuardianSet demo_state 0) (demo_sig 0 1)"
    by code_simp
  have full: "checks_pass demo_state (headerOfVM demo_vm) \<and>
      sorted_wrt (<) (map sig_guardianIndex (vm_signatures demo_vm)) \<and>
      (\<forall>s \<in> set (vm_signatures demo_vm).
          sig_ok demo_crypto (vm_hash demo_vm)
            (getGuardianSet demo_state (vm_guardianSetIndex demo_vm)) s)"
    by code_simp
  from parseAndVerifyVAA_twice[where c = demo_crypto and st = demo_state
      and b = demo_vaa and vm = demo_vm] p2 nc full
  have c2': "\<not> verifiedHashCached (snd (call_parseAndVerifyVAA demo_crypto demo_state demo_vaa))
       (vm_hash demo_vm) \<and>
     fst (call_parseAndVerifyVAA demo_crypto
          (snd (call_parseAndVerifyVAA demo_crypto demo_state demo_vaa)) demo_vaa)
     = Inr (observationOfVM demo_vm, True, [])"
    by blast
  from c2'[unfolded o]
  have c2: "\<not> verifiedHashCached (snd (call_parseAndVerifyVAA demo_crypto demo_state demo_vaa))
       (vm_hash demo_vm) \<and>
     fst (call_parseAndVerifyVAA demo_crypto
          (snd (call_parseAndVerifyVAA demo_crypto demo_state demo_vaa)) demo_vaa)
     = Inr (demo_observation, True, [])" .
  have nf: "(if gs_keys (getGuardianSet demo_state (vm_guardianSetIndex demo_vm)) = []
         then Inr (observationOfVM demo_vm, False, ''invalid guardian set'')
         else if vm_guardianSetIndex demo_vm \<noteq> getCurrentGuardianSetIndex demo_state
                 \<and> unat (gs_expirationTime
                          (getGuardianSet demo_state (vm_guardianSetIndex demo_vm)))
                     < unat (block_timestamp demo_state)
         then Inr (observationOfVM demo_vm, False, ''guardian set has expired'')
         else if 256 \<le> length (gs_keys (getGuardianSet demo_state (vm_guardianSetIndex demo_vm)))
         then Inl (Revert ''too many guardians'')
         else if length (vm_signatures demo_vm)
                   < length (gs_keys (getGuardianSet demo_state (vm_guardianSetIndex demo_vm)))
                       * 2 div 3 + 1
         then Inr (observationOfVM demo_vm, False, ''no quorum'')
         else andThen
                (verifySignatures failing_crypto (vm_hash demo_vm) (vm_signatures demo_vm)
                   (getGuardianSet demo_state (vm_guardianSetIndex demo_vm)))
                (\<lambda>(valid, reason). Inr (observationOfVM demo_vm, valid, reason)))
        = Inr (demo_observation, False, ''VM signature invalid'')"
    by code_simp
  from parseAndVerifyVAA_twice[where c = failing_crypto and st = demo_state
      and b = demo_vaa and vm = demo_vm] p nc
  have "fst (call_parseAndVerifyVAA failing_crypto
          (snd (call_parseAndVerifyVAA failing_crypto demo_state demo_vaa)) demo_vaa)
     = (if gs_keys (getGuardianSet demo_state (vm_guardianSetIndex demo_vm)) = []
         then Inr (observationOfVM demo_vm, False, ''invalid guardian set'')
         else if vm_guardianSetIndex demo_vm \<noteq> getCurrentGuardianSetIndex demo_state
                 \<and> unat (gs_expirationTime
                          (getGuardianSet demo_state (vm_guardianSetIndex demo_vm)))
                     < unat (block_timestamp demo_state)
         then Inr (observationOfVM demo_vm, False, ''guardian set has expired'')
         else if 256 \<le> length (gs_keys (getGuardianSet demo_state (vm_guardianSetIndex demo_vm)))
         then Inl (Revert ''too many guardians'')
         else if length (vm_signatures demo_vm)
                   < length (gs_keys (getGuardianSet demo_state (vm_guardianSetIndex demo_vm)))
                       * 2 div 3 + 1
         then Inr (observationOfVM demo_vm, False, ''no quorum'')
         else andThen
                (verifySignatures failing_crypto (vm_hash demo_vm) (vm_signatures demo_vm)
                   (getGuardianSet demo_state (vm_guardianSetIndex demo_vm)))
                (\<lambda>(valid, reason). Inr (observationOfVM demo_vm, valid, reason)))"
    by blast
  then have c3: "fst (call_parseAndVerifyVAA failing_crypto
          (snd (call_parseAndVerifyVAA failing_crypto demo_state demo_vaa)) demo_vaa)
     = Inr (demo_observation, False, ''VM signature invalid'')"
    using nf by simp
  show ?thesis using p h c1 p2 nc c2 cp ok c3 by blast
qed

text \<open>
  Claim C5 as stated fails: after a first call on \<open>demo_vaa\<close> that returns
  \<open>valid = true\<close>, the hash of the message is not in the cache, and the outcome of a
  second call depends on signature recovery: with a recovery function that finds no
  guardian the second call returns \<open>(false, "VM signature invalid")\<close>.
\<close>

theorem parseAndVerifyVAA_twice_counterexample:
  "fst (call_parseAndVerifyVAA demo_crypto demo_state demo_vaa)
     = Inr (demo_observation, True, []) \<and>
   parseVM demo_crypto demo_vaa = Inr demo_vm \<and>
   \<not> verifiedHashCached (snd (call_parseAndVerifyVAA demo_crypto demo_state demo_vaa))
       (vm_hash demo_vm) \<and>
   fst (call_parseAndVerifyVAA failing_crypto
          (snd (call_parseAndVerifyVAA demo_crypto demo_state demo_vaa)) demo_vaa)
     = Inr (demo_observation, False, ''VM signature invalid'')"
  by code_simp

subsection \<open>quorum\<close>

text \<open>
  Claim C6. For every number of guardians \<open>n < 256\<close>, \<open>quorum n\<close> returns
  \<open>n * 2 div 3 + 1\<close>; the sizes 1, 2, 3, 4, 7, 255 give 1, 2, 3, 3, 5, 171. For every
  \<open>n \<ge> 256\<close> it reverts with "too many guardians", and \<open>verifyHeader\<close>, once it
  reaches the quorum step with such a guardian set, reverts with that message whatever
  the signature list is: the signature count is never compared.
\<close>

theorem quorum_formula:
  "(n < 256 \<longrightarrow> quorum n = Inr (n * 2 div 3 + 1)) \<and>
   (256 \<le> n \<longrightarrow> quorum n = Inl (Revert ''too many guardians'')) \<and>
   map quorum [1, 2, 3, 4, 7, 255] = map Inr [1, 2, 3, 3, 5, 171] \<and>
   (\<not> verifiedHashCached st (hdr_hash vm) \<and>
    256 \<le> length (gs_keys (getGuardianSet st (hdr_guardianSetIndex vm))) \<and>
    \<not> (hdr_guardianSetIndex vm \<noteq> getCurrentGuardianSetIndex st \<and>
       unat (gs_expirationTime (getGuardianSet st (hdr_guardianSetIndex vm)))
         < unat (block_timestamp st))
    \<longrightarrow> verifyHeader c st vm = Inl (Revert ''too many guardians''))"
proof -
  have small: "n < 256 \<longrightarrow> quorum n = Inr (n * 2 div 3 + 1)"
    by (simp add: quorum_def require_def andThen_def)
  have big: "\<And>k. 256 \<le> k \<Longrightarrow> quorum k = Inl (Revert ''too many guardians'')"
    by (simp add: quorum_def require_def andThen_def)
  have vals: "map quorum [1, 2, 3, 4, 7, 255] = map Inr [1, 2, 3, 3, 5, 171]"
    by (simp add: quorum_def require_def andThen_def)
  have hdr: "\<not> verifiedHashCached st (hdr_hash vm) \<and>
    256 \<le> length (gs_keys (getGuardianSet st (hdr_guardianSetIndex vm))) \<and>
    \<not> (hdr_guardianSetIndex vm \<noteq> getCurrentGuardianSetIndex st \<and>
       unat (gs_expirationTime (getGuardianSet st (hdr_guardianSetIndex vm)))
         < unat (block_timestamp st))
    \<longrightarrow> verifyHeader c st vm = Inl (Revert ''too many guardians'')"
    by (auto simp add: verifyHeader_def Let_def big andThen_def)
  show ?thesis using small big[of n] vals hdr by blast
qed

theorem quorum_formula_witness:
  "quorum 7 = Inr 5 \<and>
   quorum 256 = Inl (Revert ''too many guardians'') \<and>
   length (gs_keys (getGuardianSet demo_state 2)) = 256 \<and>
   verifyHeader demo_crypto demo_state (demo_header 2 [] [1]) = Inl (Revert ''too many guardians'')"
proof -
  have h1: "(7::nat) < 256" by simp
  have h2: "(256::nat) \<le> 256" by simp
  have h3: "\<not> verifiedHashCached demo_state (hdr_hash (demo_header 2 [] [1])) \<and>
    256 \<le> length (gs_keys (getGuardianSet demo_state (hdr_guardianSetIndex (demo_header 2 [] [1])))) \<and>
    \<not> (hdr_guardianSetIndex (demo_header 2 [] [1]) \<noteq> getCurrentGuardianSetIndex demo_state \<and>
       unat (gs_expirationTime (getGuardianSet demo_state (hdr_guardianSetIndex (demo_header 2 [] [1]))))
         < unat (block_timestamp demo_state))"
    by code_simp
  have len: "length (gs_keys (getGuardianSet demo_state 2)) = 256" by code_simp
  from quorum_formula[of 7 demo_state "demo_header 2 [] [1]" demo_crypto] h1
  have a: "quorum 7 = Inr 5" by simp
  from quorum_formula[of 256 demo_state "demo_header 2 [] [1]" demo_crypto] h2 h3
  have b: "quorum 256 = Inl (Revert ''too many guardians'')"
    and d: "verifyHeader demo_crypto demo_state (demo_header 2 [] [1]) = Inl (Revert ''too many guardians'')"
    by blast+
  show ?thesis using a b len d by blast
qed

subsection \<open>The cache bypass\<close>

text \<open>
  Claim C7. When the hash is marked verified in the cache, verification returns
  \<open>(true, "")\<close> at once, for every guardian set, clock, signature list and recovery
  function: nothing else is consulted. This holds for \<open>verifyHeader\<close> and for its
  callers \<open>verifyVM\<close> and \<open>verifyBatchHeader\<close>.
\<close>

theorem cache_bypass:
  "(verifiedHashCached st (hdr_hash header) \<longrightarrow> verifyHeader c st header = Inr (True, [])) \<and>
   (verifiedHashCached st (vm_hash vm) \<longrightarrow> verifyVM c st vm = Inr (True, [])) \<and>
   (verifiedHashCached st (bh_hash batch) \<longrightarrow> verifyBatchHeader c st batch = Inr (True, []))"
  by (simp add: verifyHeader_def verifyVM_def verifyBatchHeader_def)

theorem cache_bypass_witness:
  "verifiedHashCached demo_state (hdr_hash (demo_header 7 [] [202, 254])) \<and>
   gs_keys (getGuardianSet demo_state 7) = [] \<and>
   verifyHeader demo_crypto demo_state (demo_header 7 [] [202, 254]) = Inr (True, []) \<and>
   verifyHeader demo_crypto demo_state (demo_header 7 [] [202, 255])
     = Inr (False, ''invalid guardian set'')"
proof -
  have h: "verifiedHashCached demo_state (hdr_hash (demo_header 7 [] [202, 254]))"
    by code_simp
  have e: "gs_keys (getGuardianSet demo_state 7) = []" by code_simp
  have u: "verifyHeader demo_crypto demo_state (demo_header 7 [] [202, 255])
     = Inr (False, ''invalid guardian set'')" by code_simp
  from cache_bypass[of demo_state "demo_header 7 [] [202, 254]" demo_crypto] h
  have "verifyHeader demo_crypto demo_state (demo_header 7 [] [202, 254]) = Inr (True, [])"
    by blast
  then show ?thesis using h e u by blast
qed

subsection \<open>The expiry check\<close>

text \<open>
  Claim C8. \<open>verifyHeader\<close> returns \<open>(false, "guardian set has expired")\<close> only if the
  header's guardian-set index differs from the current index and the expiration time of
  that set is below the block timestamp; and whenever the check is reached (the hash is
  not cached and the set has a key), it returns that pair if both hold. So a current set
  passes the check whatever its expiration time, and so does a set that is not current
  but not expired.
\<close>

theorem expiry_check:
  "(verifyHeader c st vm = Inr (False, ''guardian set has expired'') \<longrightarrow>
      hdr_guardianSetIndex vm \<noteq> getCurrentGuardianSetIndex st \<and>
      unat (gs_expirationTime (getGuardianSet st (hdr_guardianSetIndex vm)))
        < unat (block_timestamp st)) \<and>
   (\<not> verifiedHashCached st (hdr_hash vm) \<and>
    gs_keys (getGuardianSet st (hdr_guardianSetIndex vm)) \<noteq> [] \<and>
    hdr_guardianSetIndex vm \<noteq> getCurrentGuardianSetIndex st \<and>
    unat (gs_expirationTime (getGuardianSet st (hdr_guardianSetIndex vm)))
      < unat (block_timestamp st) \<longrightarrow>
      verifyHeader c st vm = Inr (False, ''guardian set has expired''))"
proof -
  have fwd: "verifyHeader c st vm = Inr (False, ''guardian set has expired'') \<longrightarrow>
      hdr_guardianSetIndex vm \<noteq> getCurrentGuardianSetIndex st \<and>
      unat (gs_expirationTime (getGuardianSet st (hdr_guardianSetIndex vm)))
        < unat (block_timestamp st)"
    using verifySignatures_results[of c "hdr_hash vm" "hdr_signatures vm"
        "getGuardianSet st (hdr_guardianSetIndex vm)"]
    by (auto simp add: verifyHeader_def Let_def andThen_def quorum_def require_def
          split: if_splits sum.splits)
  have bwd: "\<not> verifiedHashCached st (hdr_hash vm) \<and>
    gs_keys (getGuardianSet st (hdr_guardianSetIndex vm)) \<noteq> [] \<and>
    hdr_guardianSetIndex vm \<noteq> getCurrentGuardianSetIndex st \<and>
    unat (gs_expirationTime (getGuardianSet st (hdr_guardianSetIndex vm)))
      < unat (block_timestamp st) \<longrightarrow>
      verifyHeader c st vm = Inr (False, ''guardian set has expired'')"
    by (simp add: verifyHeader_def Let_def)
  show ?thesis using fwd bwd by blast
qed

theorem expiry_check_witness:
  "(\<not> verifiedHashCached demo_state (hdr_hash (demo_header 1 [] [5])) \<and>
    gs_keys (getGuardianSet demo_state (hdr_guardianSetIndex (demo_header 1 [] [5]))) \<noteq> [] \<and>
    hdr_guardianSetIndex (demo_header 1 [] [5]) \<noteq> getCurrentGuardianSetIndex demo_state \<and>
    unat (gs_expirationTime (getGuardianSet demo_state (hdr_guardianSetIndex (demo_header 1 [] [5]))))
      < unat (block_timestamp demo_state)) \<and>
   verifyHeader demo_crypto demo_state (demo_header 1 [] [5])
     = Inr (False, ''guardian set has expired'')"
proof -
  have h: "\<not> verifiedHashCached demo_state (hdr_hash (demo_header 1 [] [5])) \<and>
    gs_keys (getGuardianSet demo_state (hdr_guardianSetIndex (demo_header 1 [] [5]))) \<noteq> [] \<and>
    hdr_guardianSetIndex (demo_header 1 [] [5]) \<noteq> getCurrentGuardianSetIndex demo_state \<and>
    unat (gs_expirationTime (getGuardianSet demo_state (hdr_guardianSetIndex (demo_header 1 [] [5]))))
      < unat (block_timestamp demo_state)"
    by code_simp
  from expiry_check[of demo_crypto demo_state "demo_header 1 [] [5]"] h
  have "verifyHeader demo_crypto demo_state (demo_header 1 [] [5])
     = Inr (False, ''guardian set has expired'')"
    by blast
  then show ?thesis using h by blast
qed

subsection \<open>Ascending guardian indices\<close>

text \<open>
  Claim C9, amended. In the signature walk the first failing check decides the outcome.
  After entries that are strictly ascending, within the guardian set and recovering to
  the key at their index, an entry whose guardian index is not above that of the entry
  before it (a duplicate included) makes \<open>verifySignatures\<close> revert with
  "signature indices must be ascending"; otherwise an entry whose index is outside the
  guardian set makes it revert with "guardian index out of bounds"; otherwise an entry
  whose signature does not recover to the key makes it return
  \<open>(false, "VM signature invalid")\<close>. In particular, if some entry after the first
  has a guardian index not above that of the entry before it, and every entry before it
  is within the guardian set and valid, the walk reverts with the order message; this
  covers every list whose signatures are all in range and valid. The walk returns
  \<open>(true, "")\<close> exactly when all entries are strictly ascending, in range and valid;
  the first entry is not checked for order, so a single entry that is in range and valid
  passes whatever its index.
\<close>

theorem ascending_order_enforced:
  "(Suc i < length sigs \<and>
    sig_guardianIndex (sigs ! Suc i) \<le> sig_guardianIndex (sigs ! i) \<and>
    (\<forall>j \<le> i. sig_ok c hash guardianSet (sigs ! j))
    \<longrightarrow> verifySignatures c hash sigs guardianSet
          = Inl (Revert ''signature indices must be ascending'')) \<and>
   (sig_ok c hash guardianSet sg
    \<longrightarrow> verifySignatures c hash [sg] guardianSet = Inr (True, [])) \<and>
   (sorted_wrt (<) (map sig_guardianIndex pre) \<and>
    (\<forall>s \<in> set pre. sig_ok c hash guardianSet s)
    \<longrightarrow>
      (pre \<noteq> [] \<and> sig_guardianIndex e \<le> sig_guardianIndex (last pre)
         \<longrightarrow> verifySignatures c hash (pre @ e # post) guardianSet
               = Inl (Revert ''signature indices must be ascending'')) \<and>
      ((pre = [] \<or> sig_guardianIndex (last pre) < sig_guardianIndex e) \<and>
       \<not> unat (sig_guardianIndex e) < length (gs_keys guardianSet)
         \<longrightarrow> verifySignatures c hash (pre @ e # post) guardianSet
               = Inl (Revert ''guardian index out of bounds'')) \<and>
      ((pre = [] \<or> sig_guardianIndex (last pre) < sig_guardianIndex e) \<and>
       unat (sig_guardianIndex e) < length (gs_keys guardianSet) \<and>
       ecrecover c hash (sig_v e) (sig_r e) (sig_s e)
         \<noteq> gs_keys guardianSet ! unat (sig_guardianIndex e)
         \<longrightarrow> verifySignatures c hash (pre @ e # post) guardianSet
               = Inr (False, ''VM signature invalid''))) \<and>
   (verifySignatures c hash sigs guardianSet = Inr (True, []) \<longleftrightarrow>
      sorted_wrt (<) (map sig_guardianIndex sigs) \<and>
      (\<forall>s \<in> set sigs. sig_ok c hash guardianSet s))"
proof -
  have desc: "Suc i < length sigs \<and>
    sig_guardianIndex (sigs ! Suc i) \<le> sig_guardianIndex (sigs ! i) \<and>
    (\<forall>j \<le> i. sig_ok c hash guardianSet (sigs ! j))
    \<longrightarrow> verifySignatures c hash sigs guardianSet
          = Inl (Revert ''signature indices must be ascending'')"
    using descent_reverts[of i sigs c hash guardianSet] by blast
  have one: "sig_ok c hash guardianSet sg
    \<longrightarrow> verifySignatures c hash [sg] guardianSet = Inr (True, [])"
    by (simp add: verifySignatures_def sig_ok_def andThen_def require_def)
  have walk: "sorted_wrt (<) (map sig_guardianIndex pre) \<and>
    (\<forall>s \<in> set pre. sig_ok c hash guardianSet s)
    \<longrightarrow>
      (pre \<noteq> [] \<and> sig_guardianIndex e \<le> sig_guardianIndex (last pre)
         \<longrightarrow> verifySignatures c hash (pre @ e # post) guardianSet
               = Inl (Revert ''signature indices must be ascending'')) \<and>
      ((pre = [] \<or> sig_guardianIndex (last pre) < sig_guardianIndex e) \<and>
       \<not> unat (sig_guardianIndex e) < length (gs_keys guardianSet)
         \<longrightarrow> verifySignatures c hash (pre @ e # post) guardianSet
               = Inl (Revert ''guardian index out of bounds'')) \<and>
      ((pre = [] \<or> sig_guardianIndex (last pre) < sig_guardianIndex e) \<and>
       unat (sig_guardianIndex e) < length (gs_keys guardianSet) \<and>
       ecrecover c hash (sig_v e) (sig_r e) (sig_s e)
         \<noteq> gs_keys guardianSet ! unat (sig_guardianIndex e)
         \<longrightarrow> verifySignatures c hash (pre @ e # post) guardianSet
               = Inr (False, ''VM signature invalid''))"
    using walk_failures[of pre c hash guardianSet e post] by blast
  show ?thesis
    by (intro conjI) (rule desc, rule one, rule walk, rule verifySignatures_True_iff)
qed

theorem ascending_order_enforced_witness:
  "(Suc 0 < length [demo_sig 2 3, demo_sig 1 2] \<and>
    sig_guardianIndex ([demo_sig 2 3, demo_sig 1 2] ! Suc 0)
      \<le> sig_guardianIndex ([demo_sig 2 3, demo_sig 1 2] ! 0) \<and>
    sig_ok demo_crypto [5] demo_guardians ([demo_sig 2 3, demo_sig 1 2] ! 0)) \<and>
   verifySignatures demo_crypto [5] [demo_sig 2 3, demo_sig 1 2] demo_guardians
     = Inl (Revert ''signature indices must be ascending'') \<and>
   sig_ok demo_crypto [5] demo_guardians (demo_sig 2 3) \<and>
   verifySignatures demo_crypto [5] [demo_sig 2 3] demo_guardians = Inr (True, []) \<and>
   sig_ok demo_crypto [5] demo_guardians (demo_sig 0 1) \<and>
   sig_ok demo_crypto [5] demo_guardians (demo_sig 1 2) \<and>
   verifySignatures demo_crypto [5]
       ([demo_sig 0 1, demo_sig 1 2] @ demo_sig 1 2 # [demo_sig 2 3]) demo_guardians
     = Inl (Revert ''signature indices must be ascending'') \<and>
   verifySignatures demo_crypto [5] ([demo_sig 0 1] @ demo_sig 7 1 # []) demo_guardians
     = Inl (Revert ''guardian index out of bounds'') \<and>
   verifySignatures demo_crypto [5] ([demo_sig 0 1] @ demo_sig 1 9 # [demo_sig 1 2])
       demo_guardians
     = Inr (False, ''VM signature invalid'') \<and>
   verifySignatures demo_crypto [5] [demo_sig 0 1, demo_sig 2 3] demo_guardians
     = Inr (True, [])"
proof -
  have ok: "sig_ok demo_crypto [5] demo_guardians (demo_sig 2 3)" by code_simp
  have ok0: "sig_ok demo_crypto [5] demo_guardians (demo_sig 0 1)" by code_simp
  have ok1: "sig_ok demo_crypto [5] demo_guardians (demo_sig 1 2)" by code_simp
  have h: "Suc 0 < length [demo_sig 2 3, demo_sig 1 2] \<and>
    sig_guardianIndex ([demo_sig 2 3, demo_sig 1 2] ! Suc 0)
      \<le> sig_guardianIndex ([demo_sig 2 3, demo_sig 1 2] ! 0) \<and>
    (\<forall>j \<le> 0. sig_ok demo_crypto [5] demo_guardians ([demo_sig 2 3, demo_sig 1 2] ! j))"
    using ok by (simp add: demo_sig_def)
  from h have h': "Suc 0 < length [demo_sig 2 3, demo_sig 1 2] \<and>
    sig_guardianIndex ([demo_sig 2 3, demo_sig 1 2] ! Suc 0)
      \<le> sig_guardianIndex ([demo_sig 2 3, demo_sig 1 2] ! 0) \<and>
    sig_ok demo_crypto [5] demo_guardians ([demo_sig 2 3, demo_sig 1 2] ! 0)"
    by simp
  from ascending_order_enforced[where i = 0 and sigs = "[demo_sig 2 3, demo_sig 1 2]"
      and c = demo_crypto and hash = "[5]" and guardianSet = demo_guardians
      and sg = "demo_sig 2 3"] h ok
  have r: "verifySignatures demo_crypto [5] [demo_sig 2 3, demo_sig 1 2] demo_guardians
        = Inl (Revert ''signature indices must be ascending'') \<and>
      verifySignatures demo_crypto [5] [demo_sig 2 3] demo_guardians = Inr (True, [])"
    by blast
  have pA: "sorted_wrt (<) (map sig_guardianIndex [demo_sig 0 1, demo_sig 1 2]) \<and>
      (\<forall>s \<in> set [demo_sig 0 1, demo_sig 1 2]. sig_ok demo_crypto [5] demo_guardians s)"
    by code_simp
  have eA: "[demo_sig 0 1, demo_sig 1 2] \<noteq> [] \<and>
      sig_guardianIndex (demo_sig 1 2) \<le> sig_guardianIndex (last [demo_sig 0 1, demo_sig 1 2])"
    by code_simp
  from ascending_order_enforced[where c = demo_crypto and hash = "[5]"
      and guardianSet = demo_guardians and pre = "[demo_sig 0 1, demo_sig 1 2]"
      and e = "demo_sig 1 2" and post = "[demo_sig 2 3]"] pA eA
  have rA: "verifySignatures demo_crypto [5]
       ([demo_sig 0 1, demo_sig 1 2] @ demo_sig 1 2 # [demo_sig 2 3]) demo_guardians
     = Inl (Revert ''signature indices must be ascending'')" by blast
  have pB: "sorted_wrt (<) (map sig_guardianIndex [demo_sig 0 1]) \<and>
      (\<forall>s \<in> set [demo_sig 0 1]. sig_ok demo_crypto [5] demo_guardians s)"
    by code_simp
  have eB: "([demo_sig 0 1] = [] \<or>
        sig_guardianIndex (last [demo_sig 0 1]) < sig_guardianIndex (demo_sig 7 1)) \<and>
      \<not> unat (sig_guardianIndex (demo_sig 7 1)) < length (gs_keys demo_guardians)"
    by code_simp
  from ascending_order_enforced[where c = demo_crypto and hash = "[5]"
      and guardianSet = demo_guardians and pre = "[demo_sig 0 1]"
      and e = "demo_sig 7 1" and post = "[]"] pB eB
  have rB: "verifySignatures demo_crypto [5] ([demo_sig 0 1] @ demo_sig 7 1 # []) demo_guardians
     = Inl (Revert ''guardian index out of bounds'')" by blast
  have eC: "([demo_sig 0 1] = [] \<or>
        sig_guardianIndex (last [demo_sig 0 1]) < sig_guardianIndex (demo_sig 1 9)) \<and>
      unat (sig_guardianIndex (demo_sig 1 9)) < length (gs_keys demo_guardians) \<and>
      ecrecover demo_crypto [5] (sig_v (demo_sig 1 9)) (sig_r (demo_sig 1 9))
          (sig_s (demo_sig 1 9))
        \<noteq> gs_keys demo_guardians ! unat (sig_guardianIndex (demo_sig 1 9))"
    by code_simp
  from ascending_order_enforced[where c = demo_crypto and hash = "[5]"
      and guardianSet = demo_guardians and pre = "[demo_sig 0 1]"
      and e = "demo_sig 1 9" and post = "[demo_sig 1 2]"] pB eC
  have rC: "verifySignatures demo_crypto [5] ([demo_sig 0 1] @ demo_sig 1 9 # [demo_sig 1 2])
       demo_guardians
     = Inr (False, ''VM signature invalid'')" by blast
  have pD: "sorted_wrt (<) (map sig_guardianIndex [demo_sig 0 1, demo_sig 2 3]) \<and>
      (\<forall>s \<in> set [demo_sig 0 1, demo_sig 2 3]. sig_ok demo_crypto [5] demo_guardians s)"
    by code_simp
  from ascending_order_enforced[where c = demo_crypto and hash = "[5]"
      and guardianSet = demo_guardians and sigs = "[demo_sig 0 1, demo_sig 2 3]"] pD
  have rD: "verifySignatures demo_crypto [5] [demo_sig 0 1, demo_sig 2 3] demo_guardians
     = Inr (True, [])" by blast
  show ?thesis using r h' ok ok0 ok1 rA rB rC rD by blast
qed

text \<open>
  Claim C9 as stated fails: the walk checks each entry in turn, so an entry before the
  one out of order ends it first. With a first signature that does not recover to the
  guardian's key the result is \<open>(false, "VM signature invalid")\<close>, and with a first
  index outside the guardian set it is the revert "guardian index out of bounds",
  although in both lists the second index equals the first.
\<close>

theorem ascending_order_counterexample:
  "sig_guardianIndex ([demo_sig 1 9, demo_sig 1 2] ! 1)
     \<le> sig_guardianIndex ([demo_sig 1 9, demo_sig 1 2] ! 0) \<and>
   verifySignatures demo_crypto [5] [demo_sig 1 9, demo_sig 1 2] demo_guardians
     = Inr (False, ''VM signature invalid'') \<and>
   sig_guardianIndex ([demo_sig 7 1, demo_sig 7 1] ! 1)
     \<le> sig_guardianIndex ([demo_sig 7 1, demo_sig 7 1] ! 0) \<and>
   verifySignatures demo_crypto [5] [demo_sig 7 1, demo_sig 7 1] demo_guardians
     = Inl (Revert ''guardian index out of bounds'')"
  by code_simp

subsection \<open>Unsupported versions\<close>

text \<open>
  Claim C10, amended. For every non-empty buffer whose first byte is neither 1 nor 3,
  \<open>parseAndVerifyVAA\<close> does not fail: it returns the zero observation, \<open>valid = false\<close>
  and the fixed reason "Invalid version", which does not contain the version byte.
\<close>

theorem unsupported_version_returned:
  "buf \<noteq> [] \<Longrightarrow> hd buf \<noteq> 1 \<Longrightarrow> hd buf \<noteq> 3 \<Longrightarrow>
   parseAndVerifyVAA c st buf = Inr (zero_Observation, False, ''Invalid version'')"
  by (cases buf) (auto simp: parseAndVerifyVAA_def toUint8_def andThen_def)

theorem unsupported_version_returned_witness:
  "[2, 0, 0] \<noteq> ([] :: bytes) \<and> hd [2, 0, 0] \<noteq> (1 :: 8 word) \<and> hd [2, 0, 0] \<noteq> (3 :: 8 word) \<and>
   parseAndVerifyVAA demo_crypto demo_state [2, 0, 0]
     = Inr (zero_Observation, False, ''Invalid version'')"
  using unsupported_version_returned[of "[2, 0, 0]" demo_crypto demo_state]
  by simp

text \<open>
  Claim C10 as stated fails: on the one-byte buffers \<open>[7]\<close> and \<open>[9]\<close> the call
  returns, and it returns the same reason for both version bytes.
\<close>

theorem unsupported_version_counterexample:
  "parseAndVerifyVAA demo_crypto demo_state [7]
     = Inr (zero_Observation, False, ''Invalid version'') \<and>
   parseAndVerifyVAA demo_crypto demo_state [9]
     = Inr (zero_Observation, False, ''Invalid version'')"
  by (simp add: parseAndVerifyVAA_def toUint8_def andThen_def)

end
